theory Spec2Isabelle
  imports Complex_Main "HOL-Library.Word"
begin

unbundle bit_operations_syntax

section \<open>Block headers and the proof-of-work dispatch (primitives/block.cpp)\<close>

type_synonym byte = "8 word"
type_synonym uint256 = "256 word"

text \<open>
  \<open>CBlockHeader\<close>: \<open>int32_t nVersion\<close>, two 256-bit hashes and three \<open>uint32_t\<close> fields.
\<close>

record CBlockHeader =
  nVersion :: "32 word"
  hashPrevBlock :: uint256
  hashMerkleRoot :: uint256
  nTime :: "32 word"
  nBits :: "32 word"
  nNonce :: "32 word"

text \<open>
  The enumerators of primitives/block.h and the two masks of versionbits.h are used by
  block.cpp and rpc/mining.cpp but declared in those two headers, so every
  function below takes them as a parameter.
\<close>

record algo_consts =
  VERSIONBITS_TOP_MASK :: "32 word"
  VERSIONBITS_TOP_BITS :: "32 word"
  ALGO_VERSION_MASK :: "32 word"
  ALGO_SHA256D :: "32 word"
  ALGO_SCRYPT :: "32 word"
  ALGO_NIST5 :: "32 word"
  ALGO_LYRA2Z :: "32 word"
  ALGO_X11 :: "32 word"
  ALGO_X16R :: "32 word"

text \<open>
  The hashing primitives (hash.h, crypto/*.h) are external as well. Each reads the bytes
  between \<open>BEGIN(nVersion)\<close> and \<open>END(nNonce)\<close>; X16R also takes \<open>hashPrevBlock\<close>.
\<close>

record hashers =
  SerializeHash :: "byte list \<Rightarrow> uint256"
  scrypt_1024_1_1_256 :: "byte list \<Rightarrow> uint256"
  NIST5 :: "byte list \<Rightarrow> uint256"
  lyra2z_hash :: "byte list \<Rightarrow> uint256"
  HashX11 :: "byte list \<Rightarrow> uint256"
  HashX16R :: "byte list \<Rightarrow> uint256 \<Rightarrow> uint256"

text \<open>Little-endian bytes of a field that is \<open>n\<close> bytes wide.\<close>

definition le_bytes :: "nat \<Rightarrow> 'a::len word \<Rightarrow> byte list" where
  "le_bytes n w = map (\<lambda>i. ucast (drop_bit (8 * i) w)) [0..<n]"

text \<open>
  The 80 bytes from the start of \<open>nVersion\<close> to the end of \<open>nNonce\<close>: the fields are
  laid out in declaration order, which is also the serialized header.
\<close>

definition header_bytes :: "CBlockHeader \<Rightarrow> byte list" where
  "header_bytes h =
     le_bytes 4 (nVersion h) @ le_bytes 32 (hashPrevBlock h) @ le_bytes 32 (hashMerkleRoot h)
     @ le_bytes 4 (nTime h) @ le_bytes 4 (nBits h) @ le_bytes 4 (nNonce h)"

text \<open>\<open>uint256S("ff...ff")\<close>, the initial value of \<open>powHash\<close>.\<close>

definition uint256_ones :: uint256 where
  "uint256_ones = - 1"

text \<open>\<open>CBlockHeader::GetHash\<close>.\<close>

definition GetHash :: "hashers \<Rightarrow> CBlockHeader \<Rightarrow> uint256" where
  "GetHash H h = SerializeHash H (header_bytes h)"

text \<open>
  \<open>CBlockHeader::GetPoWHash\<close>. The C++ \<open>switch\<close> is an \<open>if\<close> chain in the order of
  its labels; the \<open>default\<close> label leaves \<open>powHash\<close> as initialised. The function has
  no \<open>throw\<close>: it always returns a \<open>uint256\<close>.
\<close>

definition GetPoWHash :: "algo_consts \<Rightarrow> hashers \<Rightarrow> CBlockHeader \<Rightarrow> uint256" where
  "GetPoWHash C H h =
     (let powHash = uint256_ones in
      if (nVersion h AND VERSIONBITS_TOP_MASK C) \<noteq> VERSIONBITS_TOP_BITS C
      then scrypt_1024_1_1_256 H (header_bytes h)
      else
        (let a = nVersion h AND ALGO_VERSION_MASK C in
         if a = ALGO_SHA256D C then GetHash H h
         else if a = ALGO_SCRYPT C then scrypt_1024_1_1_256 H (header_bytes h)
         else if a = ALGO_NIST5 C then NIST5 H (header_bytes h)
         else if a = ALGO_LYRA2Z C then lyra2z_hash H (header_bytes h)
         else if a = ALGO_X11 C then HashX11 H (header_bytes h)
         else if a = ALGO_X16R C then HashX16R H (header_bytes h) (hashPrevBlock h)
         else powHash))"

text \<open>
  \<open>CAmount\<close> is the signed 64-bit amount type of amount.h, so
  \<open>CAmount totalAdjustements = 18.25\<close> converts the literal to an integer: C++ drops the
  fractional part (truncation towards zero).
\<close>

definition double_to_CAmount :: "real \<Rightarrow> int" where
  "double_to_CAmount x = (if 0 \<le> x then \<lfloor>x\<rfloor> else \<lceil>x\<rceil>)"

text \<open>C++ integer division truncates towards zero.\<close>

definition cdiv :: "int \<Rightarrow> int \<Rightarrow> int" where
  "cdiv a b = sgn a * sgn b * (\<bar>a\<bar> div \<bar>b\<bar>)"

text \<open>
  \<open>CBlockHeader::GetAlgoCostFactor\<close>. The doubles are modelled by exact reals; the
  \<open>switch\<close> has no \<open>default\<close>, so an unknown algorithm keeps \<open>factor = 1\<close>.
  \<open>totalAdjustements / 6\<close> divides two integers and is then converted to \<open>double\<close>.
\<close>

definition GetAlgoCostFactor :: "algo_consts \<Rightarrow> CBlockHeader \<Rightarrow> real" where
  "GetAlgoCostFactor C h =
     (let totalAdjustements = double_to_CAmount 18.25;
          a = nVersion h AND ALGO_VERSION_MASK C;
          factor =
            (if a = ALGO_SHA256D C then 10.00
             else if a = ALGO_SCRYPT C then 3.00
             else if a = ALGO_NIST5 C then 1.00
             else if a = ALGO_LYRA2Z C then 0.50
             else if a = ALGO_X11 C then 1.25
             else if a = ALGO_X16R C then 1.50
             else 1)
      in factor / real_of_int (cdiv totalAdjustements 6))"

text \<open>
  Concrete values for evaluating the functions: the versionbits masks of Bitcoin Core's
  versionbits.h and algorithm identifiers placed in bits 8 to 15 of the version.
\<close>

definition example_consts :: algo_consts where
  "example_consts =
     \<lparr> VERSIONBITS_TOP_MASK = 0xE0000000, VERSIONBITS_TOP_BITS = 0x20000000,
       ALGO_VERSION_MASK = 0xFF00,
       ALGO_SHA256D = 0x0000, ALGO_SCRYPT = 0x0100, ALGO_NIST5 = 0x0200,
       ALGO_LYRA2Z = 0x0300, ALGO_X11 = 0x0400, ALGO_X16R = 0x0500 \<rparr>"

text \<open>Stand-ins for the hash primitives that keep the six algorithms apart.\<close>

definition example_hashers :: hashers where
  "example_hashers =
     \<lparr> SerializeHash = (\<lambda>bs. 1), scrypt_1024_1_1_256 = (\<lambda>bs. 2), NIST5 = (\<lambda>bs. 3),
       lyra2z_hash = (\<lambda>bs. 4), HashX11 = (\<lambda>bs. 5), HashX16R = (\<lambda>bs seed. 6) \<rparr>"

definition header_of_version :: "32 word \<Rightarrow> CBlockHeader" where
  "header_of_version v =
     \<lparr> nVersion = v, hashPrevBlock = 0, hashMerkleRoot = 0, nTime = 0, nBits = 0, nNonce = 0 \<rparr>"


section \<open>The block index and the active chain (consumed by rpc/mining.cpp)\<close>

text \<open>
  \<open>CBlockIndex\<close> with the fields mining.cpp reads. \<open>pprev\<close> is a nullable pointer to
  the previous entry; the entries reachable from one entry form a finite chain.
  \<open>arith_uint256\<close> arithmetic is modulo \<open>2 ^ 256\<close>.
\<close>

datatype CBlockIndex = CBlockIndex
  (nHeight: int) (nVersionIdx: "32 word") (nTimeIdx: "32 word") (nBitsIdx: "32 word")
  (nChainWork: uint256) (nChainWorkAlgo: uint256) (pprev: "CBlockIndex option")

text \<open>\<open>CBlockIndex::GetBlockTime\<close>: \<open>(int64_t)nTime\<close>.\<close>

definition GetBlockTime :: "CBlockIndex \<Rightarrow> int" where
  "GetBlockTime pb = uint (nTimeIdx pb)"

text \<open>
  \<open>CChain\<close>: the vector \<open>vChain\<close> indexed by height, with \<open>Tip()\<close>, \<open>Height()\<close> and
  \<open>operator[]\<close>, each returning \<open>nullptr\<close> (here \<open>None\<close>) out of range.
\<close>

type_synonym CChain = "CBlockIndex list"

definition CChain_Tip :: "CChain \<Rightarrow> CBlockIndex option" where
  "CChain_Tip vChain = (if vChain = [] then None else Some (last vChain))"

definition CChain_Height :: "CChain \<Rightarrow> int" where
  "CChain_Height vChain = int (length vChain) - 1"

definition CChain_at :: "CChain \<Rightarrow> int \<Rightarrow> CBlockIndex option" where
  "CChain_at vChain h =
     (if h < 0 \<or> h \<ge> int (length vChain) then None else Some (vChain ! nat h))"

text \<open>What can go wrong in a call: an RPC error that is thrown, or undefined behaviour.\<close>

datatype RPCErrorCode =
    RPC_INTERNAL_ERROR | RPC_INVALID_PARAMETER | RPC_VERIFY_ERROR
  | RPC_DESERIALIZATION_ERROR | RPC_OUT_OF_MEMORY

datatype failure =
    JSONRPCError RPCErrorCode string
  | NullDereference
  | DivisionByZero
  | AssertionFailure

section \<open>Network hash rate (GetNetworkHashPS)\<close>

text \<open>C++ remainder: the sign follows the dividend.\<close>

definition cmod :: "int \<Rightarrow> int \<Rightarrow> int" where
  "cmod a b = a - b * cdiv a b"

text \<open>
  The value returned by \<open>GetNetworkHashPS\<close>: the integer \<open>0\<close>, or the double
  \<open>workDiff.getdouble() / timeDiff\<close>, kept as its two operands.
\<close>

datatype hashps = HashPS_zero | HashPS_quot (workDiff: uint256) (timeDiff: int)

text \<open>Lines 49 to 52: the starting entry.\<close>

definition resolve_start :: "CChain \<Rightarrow> int \<Rightarrow> CBlockIndex option" where
  "resolve_start chainActive height =
     (if height \<ge> 0 \<and> height < CChain_Height chainActive
      then CChain_at chainActive height else CChain_Tip chainActive)"

text \<open>
  Lines 65 to 73: the \<open>for\<close> loop that steps \<open>pb0\<close> back \<open>lookup\<close> times and tracks
  the minimum and maximum block time. Reading through a null \<open>pprev\<close> is a failure.
\<close>

fun walk_back :: "nat \<Rightarrow> CBlockIndex \<Rightarrow> int \<Rightarrow> int \<Rightarrow> failure + (CBlockIndex \<times> int \<times> int)" where
  "walk_back 0 pb0 minTime maxTime = Inr (pb0, minTime, maxTime)"
| "walk_back (Suc n) pb0 minTime maxTime =
     (case pprev pb0 of
        None \<Rightarrow> Inl NullDereference
      | Some p \<Rightarrow>
          (let time = GetBlockTime p
           in walk_back n p (min time minTime) (max time maxTime)))"

text \<open>
  Lines 82 and 84:
  \<open>while (pbAlgo->pprev && nAlgo != (pbAlgo->nVersion & ALGO_VERSION_MASK)) pbAlgo = pbAlgo->pprev\<close>.
\<close>

fun back_scan :: "algo_consts \<Rightarrow> 32 word \<Rightarrow> CBlockIndex \<Rightarrow> CBlockIndex" where
  "back_scan C nAlgo (CBlockIndex h v t b w wa None) = CBlockIndex h v t b w wa None"
| "back_scan C nAlgo (CBlockIndex h v t b w wa (Some p)) =
     (if nAlgo \<noteq> (v AND ALGO_VERSION_MASK C) then back_scan C nAlgo p
      else CBlockIndex h v t b w wa (Some p))"

text \<open>
  \<open>GetNetworkHashPS(lookup, height, nAlgo)\<close>; \<open>interval\<close> is
  \<open>Params().GetConsensus().DifficultyAdjustmentInterval()\<close>. The assignment of the global
  work difference on line 79 is overwritten on line 85 before it is read.
\<close>

definition GetNetworkHashPS ::
  "algo_consts \<Rightarrow> int \<Rightarrow> CChain \<Rightarrow> int \<Rightarrow> int \<Rightarrow> 32 word \<Rightarrow> failure + hashps" where
  "GetNetworkHashPS C interval chainActive lookup height nAlgo =
     (case resolve_start chainActive height of
        None \<Rightarrow> Inr HashPS_zero
      | Some pb \<Rightarrow>
          if nHeight pb = 0 then Inr HashPS_zero
          else if lookup \<le> 0 \<and> interval = 0 then Inl DivisionByZero
          else
            (let lookup1 = (if lookup \<le> 0 then cmod (nHeight pb) interval + 1 else lookup);
                 lookup2 = (if lookup1 > nHeight pb then nHeight pb else lookup1)
             in case walk_back (nat lookup2) pb (GetBlockTime pb) (GetBlockTime pb) of
                  Inl e \<Rightarrow> Inl e
                | Inr (pb0, minTime, maxTime) \<Rightarrow>
                    if minTime = maxTime then Inr HashPS_zero
                    else
                      (let pbAlgo = back_scan C nAlgo pb;
                           pb0Algo = back_scan C nAlgo pb0;
                           workDiff = nChainWorkAlgo pbAlgo - nChainWorkAlgo pb0Algo;
                           timeDiff = maxTime - minTime
                       in Inr (HashPS_quot workDiff timeDiff))))"

section \<open>Last block of an algorithm (GetLastAlgoBlock, getmultialgoinfo)\<close>

text \<open>
  Line 124: \<open>while ((pb->nVersion & ALGO_VERSION_MASK) != nAlgo && pb->pprev) pb = pb->pprev\<close>.
\<close>

fun GetLastAlgoBlock_loop :: "algo_consts \<Rightarrow> 32 word \<Rightarrow> CBlockIndex \<Rightarrow> CBlockIndex" where
  "GetLastAlgoBlock_loop C nAlgo (CBlockIndex h v t b w wa None) = CBlockIndex h v t b w wa None"
| "GetLastAlgoBlock_loop C nAlgo (CBlockIndex h v t b w wa (Some p)) =
     (if (v AND ALGO_VERSION_MASK C) \<noteq> nAlgo then GetLastAlgoBlock_loop C nAlgo p
      else CBlockIndex h v t b w wa (Some p))"

text \<open>\<open>GetLastAlgoBlock\<close> reads \<open>pb->nVersion\<close> of the tip without a null check.\<close>

definition GetLastAlgoBlock :: "algo_consts \<Rightarrow> CChain \<Rightarrow> 32 word \<Rightarrow> failure + CBlockIndex" where
  "GetLastAlgoBlock C chainActive nAlgo =
     (case CChain_Tip chainActive of
        None \<Rightarrow> Inl NullDereference
      | Some pb \<Rightarrow> Inr (GetLastAlgoBlock_loop C nAlgo pb))"

text \<open>
  External functions used by the informational RPCs: \<open>GetAlgoName\<close> (primitives/block.h),
  \<open>GetDifficulty\<close> (rpc/blockchain.h) and the difficulty adjustment interval.
\<close>

record mining_ext =
  GetAlgoName :: "32 word \<Rightarrow> string"
  GetDifficulty :: "CBlockIndex \<Rightarrow> real"
  DifficultyAdjustmentInterval :: int

text \<open>\<open>GetAlgoDifficulty\<close>.\<close>

definition GetAlgoDifficulty :: "algo_consts \<Rightarrow> mining_ext \<Rightarrow> CChain \<Rightarrow> 32 word \<Rightarrow> failure + real" where
  "GetAlgoDifficulty C X chainActive nAlgo =
     (case GetLastAlgoBlock C chainActive nAlgo of
        Inl e \<Rightarrow> Inl e
      | Inr pb \<Rightarrow> Inr (GetDifficulty X pb))"

record algoObj =
  algo :: string
  difficulty :: real
  hashrate :: hashps
  last_block_index :: int

text \<open>The body of the loop of \<open>getmultialgoinfo\<close> for \<open>algos[i]\<close>, in evaluation order.\<close>

definition multialgo_entry :: "algo_consts \<Rightarrow> mining_ext \<Rightarrow> CChain \<Rightarrow> 32 word \<Rightarrow> failure + algoObj" where
  "multialgo_entry C X chainActive a =
     (case GetAlgoDifficulty C X chainActive a of
        Inl e \<Rightarrow> Inl e
      | Inr d \<Rightarrow>
          (case GetNetworkHashPS C (DifficultyAdjustmentInterval X) chainActive 120 (- 1) a of
             Inl e \<Rightarrow> Inl e
           | Inr hr \<Rightarrow>
               (case GetLastAlgoBlock C chainActive a of
                  Inl e \<Rightarrow> Inl e
                | Inr pb \<Rightarrow>
                    Inr \<lparr> algo = GetAlgoName X a, difficulty = d, hashrate = hr,
                          last_block_index = nHeight pb \<rparr>)))"

text \<open>Run a fallible step over a list, stopping at the first failure.\<close>

fun collect :: "('a \<Rightarrow> failure + 'b) \<Rightarrow> 'a list \<Rightarrow> failure + 'b list" where
  "collect f [] = Inr []"
| "collect f (x # xs) =
     (case f x of
        Inl e \<Rightarrow> Inl e
      | Inr y \<Rightarrow> (case collect f xs of Inl e \<Rightarrow> Inl e | Inr ys \<Rightarrow> Inr (y # ys)))"

definition multialgo_algos :: "algo_consts \<Rightarrow> 32 word list" where
  "multialgo_algos C =
     [ALGO_SHA256D C, ALGO_SCRYPT C, ALGO_LYRA2Z C, ALGO_X11 C, ALGO_X16R C, ALGO_NIST5 C]"

definition getmultialgoinfo :: "algo_consts \<Rightarrow> mining_ext \<Rightarrow> CChain \<Rightarrow> failure + algoObj list" where
  "getmultialgoinfo C X chainActive = collect (multialgo_entry C X chainActive) (multialgo_algos C)"

text \<open>
  The entries reachable from an entry through \<open>pprev\<close>, the entry itself first and the
  entry without a predecessor (the genesis block) last.
\<close>

fun ancestors :: "CBlockIndex \<Rightarrow> CBlockIndex list" where
  "ancestors (CBlockIndex h v t b w wa None) = [CBlockIndex h v t b w wa None]"
| "ancestors (CBlockIndex h v t b w wa (Some p)) = CBlockIndex h v t b w wa (Some p) # ancestors p"

definition mined_by :: "algo_consts \<Rightarrow> 32 word \<Rightarrow> CBlockIndex \<Rightarrow> bool" where
  "mined_by C nAlgo pb = ((nVersionIdx pb AND ALGO_VERSION_MASK C) = nAlgo)"

text \<open>
  The entry both back-scans stop at: the most recent entry mined by the algorithm, the
  starting entry included, and the genesis entry when there is none.
\<close>

definition last_algo_or_genesis :: "algo_consts \<Rightarrow> 32 word \<Rightarrow> CBlockIndex \<Rightarrow> CBlockIndex" where
  "last_algo_or_genesis C nAlgo pb =
     (case find (mined_by C nAlgo) (ancestors pb) of
        Some x \<Rightarrow> x
      | None \<Rightarrow> last (ancestors pb))"

text \<open>
  An active chain as the node maintains it: \<open>vChain\<close> lists the tip's ancestors from the
  genesis block up, and the entry at index \<open>h\<close> has height \<open>h\<close>.
\<close>

definition wf_chain :: "CChain \<Rightarrow> bool" where
  "wf_chain vChain =
     (vChain \<noteq> [] \<and> vChain = rev (ancestors (last vChain))
      \<and> map nHeight vChain = map int [0..<length vChain])"


section \<open>The template cache of getblocktemplate (lines 908 to 935)\<close>

text \<open>
  The function-local statics. Block index pointers are compared by identity, so they are
  values of an arbitrary type \<open>'p\<close>, with \<open>None\<close> for \<open>nullptr\<close>; \<open>'t\<close> is the type of
  block templates. Statics start zero-initialised.
\<close>

record ('p, 't) gbt_statics =
  nTransactionsUpdatedLast :: "32 word"
  pindexPrev :: "'p option"
  nStart :: int
  pblocktemplate :: "'t option"
  nTemplatePowAlgo :: "32 word"

definition gbt_initial :: "('p, 't) gbt_statics" where
  "gbt_initial =
     \<lparr> nTransactionsUpdatedLast = 0, pindexPrev = None, nStart = 0,
       pblocktemplate = None, nTemplatePowAlgo = 0 \<rparr>"

text \<open>
  What one call observes while it holds \<open>cs_main\<close>: the tip, the mempool's update counter,
  the clock (seconds) and what \<open>BlockAssembler(Params()).CreateNewBlock(scriptDummy, nPowAlgo)\<close>
  would return for an algorithm (\<open>None\<close> for a null template).
\<close>

record ('p, 't) gbt_env =
  Tip :: "'p option"
  GetTransactionsUpdated :: "32 word"
  GetTime :: int
  CreateNewBlock :: "32 word \<Rightarrow> 't option"

text \<open>
  The result of the cache step: whether \<open>CreateNewBlock\<close> was called, and either the
  failure or the template and \<open>pindexPrev\<close> the rest of the call works with.
\<close>

record ('p, 't) gbt_step =
  statics_after :: "('p, 't) gbt_statics"
  assembler_called :: bool
  outcome :: "failure + ('t \<times> 'p)"

definition update_block ::
  "('p, 't) gbt_statics \<Rightarrow> ('p, 't) gbt_env \<Rightarrow> 32 word \<Rightarrow> ('p, 't) gbt_step" where
  "update_block s e nPowAlgo =
     (if pindexPrev s \<noteq> Tip e
         \<or> (GetTransactionsUpdated e \<noteq> nTransactionsUpdatedLast s \<and> GetTime e - nStart s > 5)
         \<or> nPowAlgo \<noteq> nTemplatePowAlgo s
      then
        (let s1 = s\<lparr> pindexPrev := None,
                     nTransactionsUpdatedLast := GetTransactionsUpdated e,
                     nStart := GetTime e,
                     nTemplatePowAlgo := nPowAlgo,
                     pblocktemplate := CreateNewBlock e nPowAlgo \<rparr>
         in case pblocktemplate s1 of
              None \<Rightarrow>
                \<lparr> statics_after = s1, assembler_called = True,
                  outcome = Inl (JSONRPCError RPC_OUT_OF_MEMORY ''Out of memory'') \<rparr>
            | Some t \<Rightarrow>
                (let s2 = s1\<lparr> pindexPrev := Tip e \<rparr>
                 in \<lparr> statics_after = s2, assembler_called = True,
                      outcome = (case pindexPrev s2 of
                                   None \<Rightarrow> Inl AssertionFailure
                                 | Some p \<Rightarrow> Inr (t, p)) \<rparr>))
      else
        \<lparr> statics_after = s, assembler_called = False,
          outcome = (case pindexPrev s of
                       None \<Rightarrow> Inl AssertionFailure
                     | Some p \<Rightarrow>
                         (case pblocktemplate s of
                            None \<Rightarrow> Inl NullDereference
                          | Some t \<Rightarrow> Inr (t, p))) \<rparr>)"

text \<open>
  A sequence of calls, each with its own observation and requested algorithm; the statics
  persist from call to call, also after a failure.
\<close>

fun gbt_calls ::
  "('p, 't) gbt_statics \<Rightarrow> (('p, 't) gbt_env \<times> 32 word) list \<Rightarrow> ('p, 't) gbt_statics" where
  "gbt_calls s [] = s"
| "gbt_calls s ((e, a) # cs) = gbt_calls (statics_after (update_block s e a)) cs"

text \<open>
  The validity rule in the words of the specification: the tip has not changed, the
  requested algorithm equals the cached one, and either the mempool revision is unchanged
  or fewer than 5 seconds have elapsed since creation.
\<close>

definition template_valid_spec ::
  "('p, 't) gbt_statics \<Rightarrow> ('p, 't) gbt_env \<Rightarrow> 32 word \<Rightarrow> bool" where
  "template_valid_spec s e nPowAlgo =
     (pindexPrev s = Tip e \<and> nPowAlgo = nTemplatePowAlgo s
      \<and> (GetTransactionsUpdated e = nTransactionsUpdatedLast s \<or> GetTime e - nStart s < 5))"

text \<open>The rule the code applies: at most 5 seconds.\<close>

definition template_valid ::
  "('p, 't) gbt_statics \<Rightarrow> ('p, 't) gbt_env \<Rightarrow> 32 word \<Rightarrow> bool" where
  "template_valid s e nPowAlgo =
     (pindexPrev s = Tip e \<and> nPowAlgo = nTemplatePowAlgo s
      \<and> (GetTransactionsUpdated e = nTransactionsUpdatedLast s \<or> GetTime e - nStart s \<le> 5))"

text \<open>
  The block assembler builds on the tip it sees: \<open>prev_of t\<close> is the block index entry a
  template extends.
\<close>

definition assembler_on_tip :: "('t \<Rightarrow> 'p) \<Rightarrow> ('p, 't) gbt_env \<Rightarrow> bool" where
  "assembler_on_tip prev_of e =
     (\<forall>a t. CreateNewBlock e a = Some t \<longrightarrow> Tip e = Some (prev_of t))"

text \<open>The cache slot is coherent: a non-null \<open>pindexPrev\<close> comes with a template built on it.\<close>

definition cache_coherent :: "('t \<Rightarrow> 'p) \<Rightarrow> ('p, 't) gbt_statics \<Rightarrow> bool" where
  "cache_coherent prev_of s =
     (case pindexPrev s of
        None \<Rightarrow> True
      | Some p \<Rightarrow> (case pblocktemplate s of None \<Rightarrow> False | Some t \<Rightarrow> prev_of t = p))"

section \<open>Block and header submission (BIP22ValidationResult, submitblock, submitheader)\<close>

text \<open>
  \<open>CValidationState\<close> (consensus/validation.h): a mode and a reject reason.
  \<open>FormatStateMessage\<close> (util/validation.h) is external and passed as a parameter.
\<close>

datatype mode_state = MODE_VALID | MODE_INVALID | MODE_ERROR

record CValidationState =
  mode :: mode_state
  strRejectReason :: string







text \<open>
  A decoded block as submitblock sees it: its hash, the hash of its predecessor, and
  whether \<open>vtx\<close> is empty or starts with a coinbase.
\<close>

record CBlock =
  block_hash :: uint256
  block_hashPrevBlock :: uint256
  vtx_empty :: bool
  vtx0_IsCoinBase :: bool

text \<open>What \<open>LookupBlockIndex\<close> finds: \<open>IsValid(BLOCK_VALID_SCRIPTS)\<close> and \<open>nStatus & BLOCK_FAILED_MASK\<close>.\<close>

record index_status =
  valid_scripts :: bool
  failed :: bool

text \<open>
  The external collaborators of the submit paths. \<open>ProcessNewBlock\<close> returns
  \<open>accepted\<close>, sets \<open>new_block\<close> and delivers \<open>BlockChecked(block, state)\<close> notifications
  (the hash of the checked block and its state) to the registered interfaces.
\<close>

record submit_env =
  DecodeHexBlk :: "string \<Rightarrow> CBlock option"
  DecodeHexBlockHeader :: "string \<Rightarrow> CBlockHeader option"
  LookupBlockIndex :: "uint256 \<Rightarrow> index_status option"
  ProcessNewBlock :: "CBlock \<Rightarrow> bool \<times> bool \<times> (uint256 \<times> CValidationState) list"
  ProcessNewBlockHeaders :: "CBlockHeader \<Rightarrow> CValidationState"
  FormatStateMessage :: "CValidationState \<Rightarrow> string"
  GetHex :: "uint256 \<Rightarrow> string"







section \<open>Epoch names in gethalvinginfo (lines 377 to 414)\<close>

text \<open>\<open>std::to_string\<close> on an \<open>int\<close>: decimal digits, with a sign when negative.\<close>

fun digits10 :: "nat \<Rightarrow> string" where
  "digits10 n =
     (if n < 10 then [''0123456789'' ! n]
      else digits10 (n div 10) @ [''0123456789'' ! (n mod 10)])"

declare digits10.simps [simp del]

definition to_string :: "int \<Rightarrow> string" where
  "to_string i = (if i < 0 then CHR ''-'' # digits10 (nat (- i)) else digits10 (nat i))"

text \<open>A halving epoch of \<open>HalvingParameters::epochs\<close> (declared with the subsidy code).\<close>

record HalvingEpoch =
  nStartBlock :: int
  nEndBlock :: int
  nMaxBlockSubsidy :: int
  fIsSubsidyHalved :: bool
  fHasEnded :: bool

definition knownEpochs :: "string list" where
  "knownEpochs = [''COINSWAP'', ''BOOTSTRAP'', ''ALPHA'']"

text \<open>The keys of \<open>childObj\<close> that do not depend on the supply counters.\<close>

record childObj =
  epoch_name :: string
  started_by_halving :: bool
  start_block :: int
  end_block :: int

text \<open>
  The \<open>for\<close> loop over \<open>halvingParams->epochs\<close> from index \<open>i\<close> on, with the counters
  \<open>nHalvings\<close> and \<open>nEpochsAfterHalving\<close> passed along; it yields \<open>childArr\<close>.
\<close>

fun epochs_loop :: "HalvingEpoch list \<Rightarrow> nat \<Rightarrow> int \<Rightarrow> int \<Rightarrow> childObj list" where
  "epochs_loop [] i nHalvings nEpochsAfterHalving = []"
| "epochs_loop (ep # rest) i nHalvings nEpochsAfterHalving =
     (let nHalvings1 = (if fIsSubsidyHalved ep then nHalvings + 1 else nHalvings);
          nEpochsAfterHalving1 = (if fIsSubsidyHalved ep then 0 else nEpochsAfterHalving + 1);
          nEpochsAfterHalving2 = (if i < length knownEpochs then 0 else nEpochsAfterHalving1);
          epochName =
            (if i < length knownEpochs then knownEpochs ! i
             else ''ALPHA_H'' @ to_string nHalvings1 @ ''_E'' @ to_string nEpochsAfterHalving1)
      in \<lparr> epoch_name = epochName, started_by_halving = fIsSubsidyHalved ep,
            start_block = nStartBlock ep, end_block = nEndBlock ep \<rparr>
         # epochs_loop rest (Suc i) nHalvings1 nEpochsAfterHalving2)"

definition gethalvinginfo_epochs :: "HalvingEpoch list \<Rightarrow> childObj list" where
  "gethalvinginfo_epochs epochs = epochs_loop epochs 0 0 0"

text \<open>
  The two counters as the claim describes them, for the epoch at index \<open>i\<close>: the number of
  epochs started by a halving up to and including \<open>i\<close>, and the number of epochs since
  the last halving, counted from the end of the three named epochs.
\<close>

definition halvings_so_far :: "HalvingEpoch list \<Rightarrow> nat \<Rightarrow> int" where
  "halvings_so_far epochs i = int (length (filter fIsSubsidyHalved (take (Suc i) epochs)))"

definition epochs_since_halving :: "HalvingEpoch list \<Rightarrow> nat \<Rightarrow> int" where
  "epochs_since_halving epochs i =
     int (length (takeWhile (\<lambda>ep. \<not> fIsSubsidyHalved ep) (rev (drop 3 (take (Suc i) epochs)))))"

section \<open>The block generator (generateBlocks)\<close>

definition nInnerLoopCount :: "32 word" where
  "nInnerLoopCount = 0x10000"

text \<open>
  The inner \<open>while\<close> loop. \<open>chk\<close> is \<open>CheckProofOfWork\<close> (pow.h) applied to the PoW hash
  and \<open>nBits\<close>. \<open>nMaxTries\<close> is a \<open>uint64_t\<close> that is decremented only while positive, so it
  never wraps and is a natural number here.
\<close>

function scan_nonces ::
  "algo_consts \<Rightarrow> hashers \<Rightarrow> (uint256 \<Rightarrow> 32 word \<Rightarrow> bool) \<Rightarrow> CBlockHeader \<Rightarrow> nat
     \<Rightarrow> CBlockHeader \<times> nat" where
  "scan_nonces C H chk pblock nMaxTries =
     (if nMaxTries > 0 \<and> nNonce pblock < nInnerLoopCount
         \<and> \<not> chk (GetPoWHash C H pblock) (nBits pblock)
      then scan_nonces C H chk (pblock\<lparr> nNonce := nNonce pblock + 1 \<rparr>) (nMaxTries - 1)
      else (pblock, nMaxTries))"
  by pat_completeness auto
termination
  by (relation "measure (\<lambda>(C, H, chk, pblock, nMaxTries). nMaxTries)") auto

declare scan_nonces.simps [simp del]

text \<open>
  What one pass of the outer loop gets from outside: the shutdown flag read by the loop
  test, the header of the block returned by \<open>CreateNewBlock\<close> as it stands after
  \<open>IncrementExtraNonce\<close> (\<open>None\<close> for a null template), and the verdict of
  \<open>ProcessNewBlock\<close>.
\<close>

record gen_ext =
  ShutdownRequested :: bool
  NewBlock :: "CBlockHeader option"
  ProcessNewBlock_ok :: "CBlockHeader \<Rightarrow> bool"

text \<open>
  The outer \<open>while\<close> loop over the passes that are scripted in the list; \<open>None\<close> when the
  loop would enter a pass the list does not script. The wallet call \<open>KeepScript\<close> is left
  out; \<open>blockHashes\<close> holds the hashes, not yet printed as hex; \<open>nHeight'\<close> is the local
  variable \<open>nHeight\<close>.
\<close>

fun generate_loop ::
  "algo_consts \<Rightarrow> hashers \<Rightarrow> (uint256 \<Rightarrow> 32 word \<Rightarrow> bool) \<Rightarrow> gen_ext list
     \<Rightarrow> int \<Rightarrow> int \<Rightarrow> nat \<Rightarrow> uint256 list \<Rightarrow> (failure + uint256 list) option" where
  "generate_loop C H chk exts nHeight' nHeightEnd nMaxTries blockHashes =
     (if \<not> nHeight' < nHeightEnd then Some (Inr blockHashes)
      else case exts of
        [] \<Rightarrow> None
      | x # rest \<Rightarrow>
          if ShutdownRequested x then Some (Inr blockHashes)
          else case NewBlock x of
            None \<Rightarrow> Some (Inl (JSONRPCError RPC_INTERNAL_ERROR
                      (''Couldn'' @ [CHR 0x27] @ ''t create new block'')))
          | Some pblock0 \<Rightarrow>
              (case scan_nonces C H chk pblock0 nMaxTries of
                 (pblock, nMaxTries1) \<Rightarrow>
                   if nMaxTries1 = 0 then Some (Inr blockHashes)
                   else if nNonce pblock = nInnerLoopCount
                   then generate_loop C H chk rest nHeight' nHeightEnd nMaxTries1 blockHashes
                   else if \<not> ProcessNewBlock_ok x pblock
                   then Some (Inl (JSONRPCError RPC_INTERNAL_ERROR
                           ''ProcessNewBlock, block not accepted''))
                   else generate_loop C H chk rest (nHeight' + 1) nHeightEnd nMaxTries1
                          (blockHashes @ [GetHash H pblock])))"

declare generate_loop.simps [simp del]

text \<open>\<open>generateBlocks\<close>, with \<open>height\<close> the value of \<open>chainActive.Height()\<close> on entry.\<close>

definition generateBlocks ::
  "algo_consts \<Rightarrow> hashers \<Rightarrow> (uint256 \<Rightarrow> 32 word \<Rightarrow> bool) \<Rightarrow> gen_ext list
     \<Rightarrow> int \<Rightarrow> int \<Rightarrow> nat \<Rightarrow> (failure + uint256 list) option" where
  "generateBlocks C H chk exts height nGenerate nMaxTries =
     generate_loop C H chk exts height (height + nGenerate) nMaxTries []"

text \<open>The header with its nonce replaced.\<close>

definition with_nonce :: "CBlockHeader \<Rightarrow> 32 word \<Rightarrow> CBlockHeader" where
  "with_nonce pblock n = pblock\<lparr> nNonce := n \<rparr>"

text \<open>Whether the proof-of-work check passes for the header at a nonce.\<close>

definition pow_ok ::
  "algo_consts \<Rightarrow> hashers \<Rightarrow> (uint256 \<Rightarrow> 32 word \<Rightarrow> bool) \<Rightarrow> CBlockHeader \<Rightarrow> 32 word \<Rightarrow> bool" where
  "pow_ok C H chk pblock n = chk (GetPoWHash C H (with_nonce pblock n)) (nBits pblock)"


section \<open>Auxiliary definitions for the statements\<close>

text \<open>The six algorithm identifiers, in the order of the \<open>switch\<close> in block.cpp.\<close>

definition known_algos :: "algo_consts \<Rightarrow> 32 word list" where
  "known_algos C =
     [ALGO_SHA256D C, ALGO_SCRYPT C, ALGO_NIST5 C, ALGO_LYRA2Z C, ALGO_X11 C, ALGO_X16R C]"

text \<open>
  The PoW hash in the words of the specification (section 4.2): SCRYPT when the top bits
  do not match, otherwise a dispatch on the algorithm identifier that fails with
  \<open>UnknownAlgorithm\<close> when it falls through.
\<close>

datatype pow_error = UnknownAlgorithm

definition PoWHash_spec :: "algo_consts \<Rightarrow> hashers \<Rightarrow> CBlockHeader \<Rightarrow> pow_error + uint256" where
  "PoWHash_spec C H h =
     (if (nVersion h AND VERSIONBITS_TOP_MASK C) \<noteq> VERSIONBITS_TOP_BITS C
      then Inr (scrypt_1024_1_1_256 H (header_bytes h))
      else if (nVersion h AND ALGO_VERSION_MASK C) \<in> set (known_algos C)
      then Inr (GetPoWHash C H h)
      else Inl UnknownAlgorithm)"

text \<open>The cost factor of a versionbits header of an algorithm, and the mean over the six.\<close>

definition cost_factor_of_algo :: "algo_consts \<Rightarrow> 32 word \<Rightarrow> real" where
  "cost_factor_of_algo C a = GetAlgoCostFactor C (header_of_version (VERSIONBITS_TOP_BITS C OR a))"

definition cost_factor_mean :: "algo_consts \<Rightarrow> real" where
  "cost_factor_mean C = (\<Sum>a\<leftarrow>known_algos C. cost_factor_of_algo C a) / 6"

text \<open>Lines 58 to 63: the number of steps the window walks back.\<close>

definition effective_lookup :: "int \<Rightarrow> CBlockIndex \<Rightarrow> int \<Rightarrow> int" where
  "effective_lookup interval pb lookup =
     (let lookup1 = (if lookup \<le> 0 then cmod (nHeight pb) interval + 1 else lookup)
      in if lookup1 > nHeight pb then nHeight pb else lookup1)"

text \<open>The block times of an entry and of the \<open>n\<close> entries before it.\<close>

definition window_times :: "CBlockIndex \<Rightarrow> nat \<Rightarrow> int list" where
  "window_times pb n = map GetBlockTime (take (Suc n) (ancestors pb))"

text \<open>
  The work difference in the words of the specification (section 4.4): locate the most
  recent ancestor of each endpoint that was mined by the algorithm and subtract their
  per-algorithm chain works; there is no value when an endpoint has no such ancestor.
\<close>

definition work_delta_spec :: "algo_consts \<Rightarrow> 32 word \<Rightarrow> CBlockIndex \<Rightarrow> CBlockIndex \<Rightarrow> uint256 option" where
  "work_delta_spec C nAlgo pb pb0 =
     (case find (mined_by C nAlgo) (ancestors pb) of
        None \<Rightarrow> None
      | Some x \<Rightarrow>
          (case find (mined_by C nAlgo) (ancestors pb0) of
             None \<Rightarrow> None
           | Some y \<Rightarrow> Some (nChainWorkAlgo x - nChainWorkAlgo y)))"

text \<open>
  A chain of three entries for evaluating the functions: a SHA256D genesis block, an X11
  block and a SHA256D block; no block is mined by LYRA2Z.
\<close>

definition example_genesis :: CBlockIndex where
  "example_genesis = CBlockIndex 0 0x20000000 100 0x1e0ffff0 1 100 None"

definition example_block1 :: CBlockIndex where
  "example_block1 = CBlockIndex 1 0x20000400 160 0x1e0ffff0 2 5 (Some example_genesis)"

definition example_block2 :: CBlockIndex where
  "example_block2 = CBlockIndex 2 0x20000000 160 0x1e0ffff0 3 200 (Some example_block1)"

definition example_chain :: CChain where
  "example_chain = [example_genesis, example_block1, example_block2]"

text \<open>Stand-ins for the external functions of the informational RPCs.\<close>

definition example_ext :: mining_ext where
  "example_ext =
     \<lparr> GetAlgoName = (\<lambda>a. ''algo''), GetDifficulty = (\<lambda>pb. real_of_int (uint (nBitsIdx pb))),
       DifficultyAdjustmentInterval = 10 \<rparr>"

text \<open>
  An observation for evaluating the cache step: block index pointers and templates are
  numbers, and a template is the number of the entry it builds on.
\<close>

definition example_env :: "nat \<Rightarrow> 32 word \<Rightarrow> int \<Rightarrow> (nat, nat) gbt_env" where
  "example_env tip upd now =
     \<lparr> Tip = Some tip, GetTransactionsUpdated = upd, GetTime = now,
       CreateNewBlock = (\<lambda>a. Some tip) \<rparr>"

text \<open>The statics after one call at time 1000 on tip 7 with mempool revision 1.\<close>

definition example_statics :: "(nat, nat) gbt_statics" where
  "example_statics = gbt_calls gbt_initial [(example_env 7 1 1000, 0x0500)]"




text \<open>Epochs for evaluating the loop, given by their \<open>fIsSubsidyHalved\<close> flags.\<close>

definition example_epochs :: "HalvingEpoch list" where
  "example_epochs =
     map (\<lambda>halved. \<lparr> nStartBlock = 0, nEndBlock = 0, nMaxBlockSubsidy = 0,
                      fIsSubsidyHalved = halved, fHasEnded = True \<rparr>)
       [False, False, False, False, True, False, False]"

text \<open>
  The number of nonces the inner loop attempts, that is, the number of times its condition
  evaluates \<open>CheckProofOfWork\<close>; C++ evaluates \<open>&&\<close> from left to right and stops at the
  first false operand.
\<close>

function nonces_attempted ::
  "algo_consts \<Rightarrow> hashers \<Rightarrow> (uint256 \<Rightarrow> 32 word \<Rightarrow> bool) \<Rightarrow> CBlockHeader \<Rightarrow> nat \<Rightarrow> nat" where
  "nonces_attempted C H chk pblock nMaxTries =
     (if nMaxTries > 0 \<and> nNonce pblock < nInnerLoopCount
      then (if \<not> chk (GetPoWHash C H pblock) (nBits pblock)
            then 1 + nonces_attempted C H chk (pblock\<lparr> nNonce := nNonce pblock + 1 \<rparr>) (nMaxTries - 1)
            else 1)
      else 0)"
  by pat_completeness auto
termination
  by (relation "measure (\<lambda>(C, H, chk, pblock, nMaxTries). nMaxTries)") auto

declare nonces_attempted.simps [simp del]

text \<open>One scripted pass of the generator: a template at nonce 0 that the validator accepts.\<close>

definition example_pass :: gen_ext where
  "example_pass =
     \<lparr> ShutdownRequested = False, NewBlock = Some (header_of_version 0x20000000),
       ProcessNewBlock_ok = (\<lambda>pblock. True) \<rparr>"

text \<open>
  The statics are the ones a call with observation \<open>e0\<close> and algorithm \<open>a0\<close> wrote when it
  created the cached template (lines 921 to 933): its mempool counter, its time, its
  algorithm, the template it assembled and the tip it saw.
\<close>

definition created_by ::
  "('p, 't) gbt_statics \<Rightarrow> ('p, 't) gbt_env \<Rightarrow> 32 word \<Rightarrow> bool" where
  "created_by s e0 a0 =
     (nTransactionsUpdatedLast s = GetTransactionsUpdated e0 \<and> nStart s = GetTime e0
      \<and> nTemplatePowAlgo s = a0 \<and> pblocktemplate s = CreateNewBlock e0 a0
      \<and> pindexPrev s = Tip e0)"

section \<open>Properties of the proof-of-work dispatch\<close>

lemma le_bytes_length: "length (le_bytes n w) = n"
  by (simp add: le_bytes_def)

lemma header_bytes_length: "length (header_bytes h) = 80"
  by (simp add: header_bytes_def le_bytes_length)

text \<open>
  Claim C2. A header whose version does not carry the versionbits pattern is hashed with
  SCRYPT over its 80 bytes from the version field to the nonce field, whatever its
  algorithm bits are.
\<close>

theorem GetPoWHash_fallback_scrypt:
  "(nVersion h AND VERSIONBITS_TOP_MASK C) \<noteq> VERSIONBITS_TOP_BITS C \<Longrightarrow>
     GetPoWHash C H h = scrypt_1024_1_1_256 H (header_bytes h)
     \<and> length (header_bytes h) = 80
     \<and> take 4 (header_bytes h) = le_bytes 4 (nVersion h)
     \<and> drop 76 (header_bytes h) = le_bytes 4 (nNonce h)"
  by (simp add: GetPoWHash_def header_bytes_length) (simp add: header_bytes_def le_bytes_length)

theorem GetPoWHash_fallback_scrypt_witness:
  "(nVersion (header_of_version 0x502) AND VERSIONBITS_TOP_MASK example_consts)
      \<noteq> VERSIONBITS_TOP_BITS example_consts
   \<and> (nVersion (header_of_version 0x502) AND ALGO_VERSION_MASK example_consts)
      = ALGO_X16R example_consts
   \<and> GetPoWHash example_consts example_hashers (header_of_version 0x502) = 2"
  using GetPoWHash_fallback_scrypt [of "header_of_version 0x502" example_consts example_hashers]
  by (simp add: example_consts_def example_hashers_def header_of_version_def)

text \<open>
  Claim C5, as the code has it. A header that carries the versionbits pattern and whose
  algorithm field is none of the six identifiers does not make the computation fail: no
  hash primitive is called and the initial value \<open>ff...ff\<close> (\<open>2 ^ 256 - 1\<close>) is returned.
\<close>

theorem GetPoWHash_unknown_algo:
  "(nVersion h AND VERSIONBITS_TOP_MASK C) = VERSIONBITS_TOP_BITS C \<Longrightarrow>
   (nVersion h AND ALGO_VERSION_MASK C) \<notin> set (known_algos C) \<Longrightarrow>
     GetPoWHash C H h = uint256_ones \<and> unat (GetPoWHash C H h) = 2 ^ 256 - 1"
  by (auto simp add: GetPoWHash_def known_algos_def uint256_ones_def
        unsigned_minus_1_eq_mask mask_eq_exp_minus_1)

theorem GetPoWHash_unknown_algo_witness:
  "(nVersion (header_of_version 0x2000FF00) AND VERSIONBITS_TOP_MASK example_consts)
      = VERSIONBITS_TOP_BITS example_consts
   \<and> (nVersion (header_of_version 0x2000FF00) AND ALGO_VERSION_MASK example_consts)
      \<notin> set (known_algos example_consts)
   \<and> GetPoWHash example_consts example_hashers (header_of_version 0x2000FF00) = uint256_ones"
  using GetPoWHash_unknown_algo [of "header_of_version 0x2000FF00" example_consts example_hashers]
  by (simp add: example_consts_def header_of_version_def known_algos_def)

text \<open>
  Claim C5 as stated fails at version \<open>0x2000FF00\<close>: the specification's dispatch fails
  with \<open>UnknownAlgorithm\<close> there, the code returns a value.
\<close>

theorem GetPoWHash_unknown_algo_counterexample:
  "(nVersion (header_of_version 0x2000FF00) AND VERSIONBITS_TOP_MASK example_consts)
      = VERSIONBITS_TOP_BITS example_consts
   \<and> (nVersion (header_of_version 0x2000FF00) AND ALGO_VERSION_MASK example_consts)
      \<notin> set (known_algos example_consts)
   \<and> PoWHash_spec example_consts example_hashers (header_of_version 0x2000FF00)
      = Inl UnknownAlgorithm
   \<and> Inr (GetPoWHash example_consts example_hashers (header_of_version 0x2000FF00))
      \<noteq> PoWHash_spec example_consts example_hashers (header_of_version 0x2000FF00)
   \<and> GetPoWHash example_consts example_hashers (header_of_version 0x2000FF00) = uint256_ones"
  by (simp add: PoWHash_spec_def GetPoWHash_def example_consts_def header_of_version_def
        known_algos_def)

section \<open>Properties of the cost factor\<close>

lemma double_to_CAmount_total: "double_to_CAmount 18.25 = 18"
  by (simp add: double_to_CAmount_def)

lemma cdiv_total_by_six: "cdiv 18 6 = 3"
  by (simp add: cdiv_def)

lemma GetAlgoCostFactor_div3:
  "GetAlgoCostFactor C h =
     (let a = nVersion h AND ALGO_VERSION_MASK C in
        (if a = ALGO_SHA256D C then 10.00
         else if a = ALGO_SCRYPT C then 3.00
         else if a = ALGO_NIST5 C then 1.00
         else if a = ALGO_LYRA2Z C then 0.50
         else if a = ALGO_X11 C then 1.25
         else if a = ALGO_X16R C then 1.50
         else 1)) / 3"
  unfolding GetAlgoCostFactor_def Let_def double_to_CAmount_total cdiv_total_by_six by simp

text \<open>
  Claim C4, evaluated. \<open>totalAdjustements\<close> is an integer amount, so \<open>18.25\<close> becomes
  \<open>18\<close> and the divisor is the integer \<open>18 / 6 = 3\<close>, not \<open>18.25 / 6\<close>: a SHA256D header
  gets \<open>10 / 3\<close>, and the mean of the six factors is \<open>23 / 24\<close>, not \<open>1\<close>.
\<close>

theorem GetAlgoCostFactor_divides_by_three:
  "GetAlgoCostFactor example_consts (header_of_version 0x20000000) = 10 / 3
   \<and> GetAlgoCostFactor example_consts (header_of_version 0x20000000) \<noteq> 10.00 / (18.25 / 6)
   \<and> cost_factor_mean example_consts = 23 / 24
   \<and> cost_factor_mean example_consts \<noteq> 1"
  by (simp add: GetAlgoCostFactor_div3 cost_factor_mean_def cost_factor_of_algo_def
        known_algos_def example_consts_def header_of_version_def)

section \<open>Properties of the chain walks, the hash rate and the last block of an algorithm\<close>

lemma ancestors_nonempty [simp]: "ancestors pb \<noteq> []"
  by (induction pb rule: ancestors.induct) simp_all

lemma ancestors_pprev: "pprev pb = Some p \<Longrightarrow> ancestors pb = pb # ancestors p"
  by (cases pb) simp

lemma ancestors_genesis: "pprev pb = None \<Longrightarrow> ancestors pb = [pb]"
  by (cases pb) simp

lemma hd_ancestors [simp]: "hd (ancestors pb) = pb"
  by (cases "pprev pb") (simp_all add: ancestors_pprev ancestors_genesis)

lemma pprev_last_ancestors: "pprev (last (ancestors pb)) = None"
  by (induction pb rule: ancestors.induct) simp_all

lemma ancestors_nth: "i < length (ancestors pb) \<Longrightarrow> ancestors (ancestors pb ! i) = drop i (ancestors pb)"
proof (induction i arbitrary: pb)
  case 0
  then show ?case by (simp add: hd_conv_nth [symmetric])
next
  case (Suc i)
  show ?case
  proof (cases "pprev pb")
    case None
    with Suc.prems show ?thesis by (simp add: ancestors_genesis)
  next
    case (Some p)
    with Suc show ?thesis by (simp add: ancestors_pprev)
  qed
qed

lemma back_scan_eq: "back_scan C a pb = last_algo_or_genesis C a pb"
  by (induction C a pb rule: back_scan.induct)
     (auto simp add: last_algo_or_genesis_def mined_by_def split: option.splits)

lemma GetLastAlgoBlock_loop_eq: "GetLastAlgoBlock_loop C a pb = last_algo_or_genesis C a pb"
  by (induction C a pb rule: GetLastAlgoBlock_loop.induct)
     (auto simp add: last_algo_or_genesis_def mined_by_def split: option.splits)

lemma walk_back_fold:
  "n < length (ancestors pb) \<Longrightarrow>
   walk_back n pb mn mx =
     Inr (ancestors pb ! n,
          fold min (map GetBlockTime (take n (tl (ancestors pb)))) mn,
          fold max (map GetBlockTime (take n (tl (ancestors pb)))) mx)"
proof (induction n arbitrary: pb mn mx)
  case 0
  then show ?case by (simp add: hd_conv_nth [symmetric])
next
  case (Suc n)
  show ?case
  proof (cases "pprev pb")
    case None
    with Suc.prems show ?thesis by (simp add: ancestors_genesis)
  next
    case (Some p)
    have anc: "ancestors pb = pb # ancestors p" using Some by (rule ancestors_pprev)
    have len: "n < length (ancestors p)" using Suc.prems anc by simp
    obtain q qs where q: "ancestors p = q # qs" by (cases "ancestors p") simp_all
    have qp: "q = p" using hd_ancestors [of p] q by simp
    show ?thesis
      using Suc.IH [OF len] Some anc q qp by (simp add: Let_def)
  qed
qed

lemma walk_back_window:
  assumes "n < length (ancestors pb)"
  shows "walk_back n pb (GetBlockTime pb) (GetBlockTime pb) =
           Inr (ancestors pb ! n, Min (set (window_times pb n)), Max (set (window_times pb n)))"
proof -
  obtain qs where q: "ancestors pb = pb # qs"
    using hd_ancestors [of pb] by (cases "ancestors pb") simp_all
  have w: "window_times pb n = GetBlockTime pb # map GetBlockTime (take n (tl (ancestors pb)))"
    by (simp add: window_times_def q)
  have mn: "Min (set (window_times pb n))
              = fold min (map GetBlockTime (take n (tl (ancestors pb)))) (GetBlockTime pb)"
    by (simp only: w Min.set_eq_fold)
  have mx: "Max (set (window_times pb n))
              = fold max (map GetBlockTime (take n (tl (ancestors pb)))) (GetBlockTime pb)"
    by (simp only: w Max.set_eq_fold)
  show ?thesis
    by (simp only: mn mx walk_back_fold [OF assms])
qed

lemma walk_back_le:
  "walk_back n pb mn mx = Inr (pb0, mn', mx') \<Longrightarrow> mn \<le> mx \<Longrightarrow> mn' \<le> mx'"
proof (induction n arbitrary: pb mn mx)
  case 0
  then show ?case by simp
next
  case (Suc n)
  then show ?case
    by (cases "pprev pb") (auto simp add: Let_def)
qed


lemma wf_chain_Tip: "wf_chain chain \<Longrightarrow> CChain_Tip chain = Some (last chain)"
  by (simp add: wf_chain_def CChain_Tip_def)

lemma wf_chain_nth:
  assumes wf: "wf_chain chain" and k: "k < length chain"
  shows "length (ancestors (chain ! k)) = Suc k" and "nHeight (chain ! k) = int k"
proof -
  let ?A = "ancestors (last chain)"
  have c: "chain = rev ?A" using wf by (simp add: wf_chain_def)
  have len: "length ?A = length chain" by (subst (2) c) simp
  have kA: "k < length ?A" using k len by simp
  have "chain ! k = rev ?A ! k" using c by simp
  also have "\<dots> = ?A ! (length ?A - Suc k)" using kA by (rule rev_nth)
  finally have ck: "chain ! k = ?A ! (length ?A - Suc k)" .
  have "ancestors (chain ! k) = drop (length ?A - Suc k) ?A"
    unfolding ck using kA by (intro ancestors_nth) simp
  then show "length (ancestors (chain ! k)) = Suc k" using kA by simp
  have "map nHeight chain ! k = map int [0..<length chain] ! k"
    using wf by (simp add: wf_chain_def)
  then show "nHeight (chain ! k) = int k" using k by simp
qed

lemma wf_chain_resolve_start:
  assumes wf: "wf_chain chain" and r: "resolve_start chain height = Some pb"
  shows "\<exists>k<length chain. pb = chain ! k"
proof (cases "height \<ge> 0 \<and> height < CChain_Height chain")
  case True
  then have "CChain_at chain height = Some pb" using r by (auto simp add: resolve_start_def split: if_splits)
  then have "nat height < length chain \<and> pb = chain ! nat height"
    by (auto simp add: CChain_at_def split: if_splits)
  then show ?thesis by blast
next
  case False
  then have "CChain_Tip chain = Some pb" using r by (auto simp add: resolve_start_def split: if_splits)
  then have "pb = last chain" and ne: "chain \<noteq> []"
    by (auto simp add: CChain_Tip_def split: if_splits)
  then have "pb = chain ! (length chain - 1)" by (simp add: last_conv_nth)
  moreover have "length chain - 1 < length chain" using ne by simp
  ultimately show ?thesis by blast
qed

lemma wf_chain_depth:
  assumes "wf_chain chain" and "resolve_start chain height = Some pb"
  shows "length (ancestors pb) = Suc (nat (nHeight pb))" and "0 \<le> nHeight pb"
proof -
  obtain k where k: "k < length chain" "pb = chain ! k"
    using wf_chain_resolve_start [OF assms] by blast
  show "length (ancestors pb) = Suc (nat (nHeight pb))"
    using wf_chain_nth [OF assms(1) k(1)] k(2) by simp
  show "0 \<le> nHeight pb"
    using wf_chain_nth [OF assms(1) k(1)] k(2) by simp
qed

lemma effective_lookup_le: "effective_lookup interval pb lookup \<le> nHeight pb"
  by (simp add: effective_lookup_def Let_def)

lemma wf_chain_lookup_in_range:
  assumes "wf_chain chain" and "resolve_start chain height = Some pb"
  shows "nat (effective_lookup interval pb lookup) < length (ancestors pb)"
  using wf_chain_depth [OF assms] effective_lookup_le [of interval pb lookup] by simp

lemma GetNetworkHashPS_unfold:
  assumes "resolve_start chain height = Some pb" and "nHeight pb \<noteq> 0"
    and "lookup > 0 \<or> interval \<noteq> 0"
  shows "GetNetworkHashPS C interval chain lookup height a =
     (case walk_back (nat (effective_lookup interval pb lookup)) pb (GetBlockTime pb) (GetBlockTime pb) of
        Inl e \<Rightarrow> Inl e
      | Inr (pb0, minTime, maxTime) \<Rightarrow>
          if minTime = maxTime then Inr HashPS_zero
          else Inr (HashPS_quot
                 (nChainWorkAlgo (last_algo_or_genesis C a pb)
                    - nChainWorkAlgo (last_algo_or_genesis C a pb0))
                 (maxTime - minTime)))"
  using assms
  by (auto simp add: GetNetworkHashPS_def effective_lookup_def Let_def back_scan_eq
        split: sum.splits prod.splits)

lemma GetNetworkHashPS_window:
  assumes "resolve_start chain height = Some pb" and "nHeight pb \<noteq> 0"
    and "lookup > 0 \<or> interval \<noteq> 0"
    and "n = nat (effective_lookup interval pb lookup)"
    and "n < length (ancestors pb)"
  shows "GetNetworkHashPS C interval chain lookup height a =
     (if Min (set (window_times pb n)) = Max (set (window_times pb n)) then Inr HashPS_zero
      else Inr (HashPS_quot
             (nChainWorkAlgo (last_algo_or_genesis C a pb)
                - nChainWorkAlgo (last_algo_or_genesis C a (ancestors pb ! n)))
             (Max (set (window_times pb n)) - Min (set (window_times pb n)))))"
  using assms(4,5)
  by (simp add: GetNetworkHashPS_unfold [OF assms(1-3)] walk_back_window)

lemma work_delta_spec_Some:
  "work_delta_spec C a pb pb0 = Some d \<Longrightarrow>
     d = nChainWorkAlgo (last_algo_or_genesis C a pb) - nChainWorkAlgo (last_algo_or_genesis C a pb0)"
  by (auto simp add: work_delta_spec_def last_algo_or_genesis_def split: option.splits)

text \<open>
  Claim C3, as the code has it. On an active chain, for a non-null starting entry of
  positive height and a window whose minimum and maximum block times differ, the estimator
  returns the quotient of a per-algorithm work difference (modulo \<open>2 ^ 256\<close>) and
  \<open>maxTime - minTime\<close>. The work difference is taken between the entries the two
  back-scans stop at: for each window endpoint the most recent entry mined by the requested
  algorithm, the endpoint included, or the genesis entry when the endpoint has no such
  entry. When both endpoints have one, this is the difference the specification
  describes. The global chain work \<open>nChainWork\<close> is not read.
\<close>

theorem GetNetworkHashPS_per_algo_work:
  assumes "wf_chain chain"
    and "resolve_start chain height = Some pb"
    and "0 < nHeight pb"
    and "lookup > 0 \<or> interval \<noteq> 0"
    and "n = nat (effective_lookup interval pb lookup)"
    and "Min (set (window_times pb n)) \<noteq> Max (set (window_times pb n))"
  shows "GetNetworkHashPS C interval chain lookup height a =
           Inr (HashPS_quot
                  (nChainWorkAlgo (last_algo_or_genesis C a pb)
                     - nChainWorkAlgo (last_algo_or_genesis C a (ancestors pb ! n)))
                  (Max (set (window_times pb n)) - Min (set (window_times pb n))))
         \<and> (\<forall>d. work_delta_spec C a pb (ancestors pb ! n) = Some d \<longrightarrow>
               GetNetworkHashPS C interval chain lookup height a =
                 Inr (HashPS_quot d (Max (set (window_times pb n)) - Min (set (window_times pb n)))))"
proof -
  have ne: "nHeight pb \<noteq> 0" using assms(3) by simp
  have inr: "n < length (ancestors pb)"
    using wf_chain_lookup_in_range [OF assms(1,2)] assms(5) by simp
  have main: "GetNetworkHashPS C interval chain lookup height a =
           Inr (HashPS_quot
                  (nChainWorkAlgo (last_algo_or_genesis C a pb)
                     - nChainWorkAlgo (last_algo_or_genesis C a (ancestors pb ! n)))
                  (Max (set (window_times pb n)) - Min (set (window_times pb n))))"
    using GetNetworkHashPS_window [OF assms(2) ne assms(4,5) inr] assms(6) by simp
  show ?thesis
    using main work_delta_spec_Some by metis
qed

lemma example_chain_wf: "wf_chain example_chain"
  by (simp add: wf_chain_def example_chain_def example_genesis_def example_block1_def
        example_block2_def upt_rec)


text \<open>
  Claim C9. The estimator returns 0 when the resolved starting entry is null or has height
  0, and when the minimum and maximum block times over the scanned window are equal (stated
  for the loop's own result and for the window of ancestors); whenever it returns a
  quotient, the divisor \<open>maxTime - minTime\<close> is positive, so the final division never
  divides by zero.
\<close>

theorem GetNetworkHashPS_zero_cases:
  "(resolve_start chain height = None \<longrightarrow>
      GetNetworkHashPS C interval chain lookup height a = Inr HashPS_zero)
   \<and> (\<forall>pb. resolve_start chain height = Some pb \<and> nHeight pb = 0 \<longrightarrow>
      GetNetworkHashPS C interval chain lookup height a = Inr HashPS_zero)
   \<and> (\<forall>pb pb0 t. resolve_start chain height = Some pb \<and> (lookup > 0 \<or> interval \<noteq> 0)
        \<and> walk_back (nat (effective_lookup interval pb lookup)) pb (GetBlockTime pb) (GetBlockTime pb)
            = Inr (pb0, t, t) \<longrightarrow>
      GetNetworkHashPS C interval chain lookup height a = Inr HashPS_zero)
   \<and> (\<forall>pb n. resolve_start chain height = Some pb \<and> (lookup > 0 \<or> interval \<noteq> 0)
        \<and> n = nat (effective_lookup interval pb lookup) \<and> n < length (ancestors pb)
        \<and> Min (set (window_times pb n)) = Max (set (window_times pb n)) \<longrightarrow>
      GetNetworkHashPS C interval chain lookup height a = Inr HashPS_zero)
   \<and> (\<forall>w d. GetNetworkHashPS C interval chain lookup height a = Inr (HashPS_quot w d) \<longrightarrow> 0 < d)"
proof (intro conjI allI impI)
  assume "resolve_start chain height = None"
  then show "GetNetworkHashPS C interval chain lookup height a = Inr HashPS_zero"
    by (simp add: GetNetworkHashPS_def)
next
  fix pb
  assume "resolve_start chain height = Some pb \<and> nHeight pb = 0"
  then show "GetNetworkHashPS C interval chain lookup height a = Inr HashPS_zero"
    by (simp add: GetNetworkHashPS_def)
next
  fix pb pb0 t
  assume h: "resolve_start chain height = Some pb \<and> (lookup > 0 \<or> interval \<noteq> 0)
        \<and> walk_back (nat (effective_lookup interval pb lookup)) pb (GetBlockTime pb) (GetBlockTime pb)
            = Inr (pb0, t, t)"
  show "GetNetworkHashPS C interval chain lookup height a = Inr HashPS_zero"
  proof (cases "nHeight pb = 0")
    case True
    with h show ?thesis by (simp add: GetNetworkHashPS_def)
  next
    case False
    from h have r: "resolve_start chain height = Some pb" and l: "lookup > 0 \<or> interval \<noteq> 0"
      by simp_all
    show ?thesis using h by (simp add: GetNetworkHashPS_unfold [OF r False l])
  qed
next
  fix pb n
  assume h: "resolve_start chain height = Some pb \<and> (lookup > 0 \<or> interval \<noteq> 0)
        \<and> n = nat (effective_lookup interval pb lookup) \<and> n < length (ancestors pb)
        \<and> Min (set (window_times pb n)) = Max (set (window_times pb n))"
  show "GetNetworkHashPS C interval chain lookup height a = Inr HashPS_zero"
  proof (cases "nHeight pb = 0")
    case True
    with h show ?thesis by (simp add: GetNetworkHashPS_def)
  next
    case False
    from h have r: "resolve_start chain height = Some pb" and l: "lookup > 0 \<or> interval \<noteq> 0"
      and n: "n = nat (effective_lookup interval pb lookup)" and i: "n < length (ancestors pb)"
      and mm: "Min (set (window_times pb n)) = Max (set (window_times pb n))"
      by blast+
    show ?thesis by (simp add: GetNetworkHashPS_window [OF r False l n i] mm)
  qed
next
  fix w d
  assume q: "GetNetworkHashPS C interval chain lookup height a = Inr (HashPS_quot w d)"
  show "0 < d"
  proof (cases "resolve_start chain height")
    case None
    with q show ?thesis by (simp add: GetNetworkHashPS_def)
  next
    case (Some pb)
    show ?thesis
    proof (cases "nHeight pb = 0 \<or> (lookup \<le> 0 \<and> interval = 0)")
      case True
      with q Some show ?thesis by (auto simp add: GetNetworkHashPS_def split: if_splits)
    next
      case False
      then have ne: "nHeight pb \<noteq> 0" and l: "lookup > 0 \<or> interval \<noteq> 0" by auto
      let ?t = "GetBlockTime pb"
      show ?thesis
      proof (cases "walk_back (nat (effective_lookup interval pb lookup)) pb ?t ?t")
        case (Inl e)
        with q show ?thesis by (simp add: GetNetworkHashPS_unfold [OF Some ne l])
      next
        case (Inr r)
        obtain pb0 mn mx where r: "r = (pb0, mn, mx)" by (cases r) auto
        have le: "mn \<le> mx" using walk_back_le [of _ pb ?t ?t pb0 mn mx] Inr r by simp
        from q have "mn \<noteq> mx \<and> d = mx - mn"
          by (auto simp add: GetNetworkHashPS_unfold [OF Some ne l] Inr r split: if_splits)
        with le show ?thesis by simp
      qed
    qed
  qed
qed

lemma GetNetworkHashPS_wf_returns:
  assumes wf: "wf_chain chain" and l: "lookup > 0 \<or> interval \<noteq> 0"
  shows "\<exists>r. GetNetworkHashPS C interval chain lookup height a = Inr r"
proof (cases "resolve_start chain height")
  case None
  then show ?thesis by (simp add: GetNetworkHashPS_def)
next
  case (Some pb)
  show ?thesis
  proof (cases "nHeight pb = 0")
    case True
    with Some show ?thesis by (simp add: GetNetworkHashPS_def)
  next
    case False
    show ?thesis
      using GetNetworkHashPS_window [OF Some False l refl wf_chain_lookup_in_range [OF wf Some]]
      by simp
  qed
qed

lemma collect_ok:
  "(\<forall>x\<in>set xs. \<exists>y. f x = Inr y) \<Longrightarrow>
     \<exists>ys. collect f xs = Inr ys \<and> length ys = length xs \<and> (\<forall>i<length xs. f (xs ! i) = Inr (ys ! i))"
proof (induction xs)
  case Nil
  then show ?case by simp
next
  case (Cons x xs)
  then obtain y where y: "f x = Inr y" by auto
  from Cons obtain ys where ys: "collect f xs = Inr ys" "length ys = length xs"
      "\<forall>i<length xs. f (xs ! i) = Inr (ys ! i)" by auto
  have "\<forall>i<length (x # xs). f ((x # xs) ! i) = Inr ((y # ys) ! i)"
  proof (intro allI impI)
    fix i assume "i < length (x # xs)"
    then show "f ((x # xs) ! i) = Inr ((y # ys) ! i)"
      using y ys(3) by (cases i) auto
  qed
  then show ?case using y ys by simp
qed

lemma wf_chain_genesis:
  assumes wf: "wf_chain chain"
  shows "last (ancestors (last chain)) = chain ! 0" and "set (ancestors (last chain)) = set chain"
proof -
  let ?A = "ancestors (last chain)"
  have c: "chain = rev ?A" and ne: "chain \<noteq> []" using wf by (simp_all add: wf_chain_def)
  have "chain ! 0 = hd chain" using ne by (simp add: hd_conv_nth)
  also have "\<dots> = hd (rev ?A)" using c by simp
  also have "\<dots> = last ?A" by (simp add: hd_rev)
  finally show "last ?A = chain ! 0" by simp
  have "set chain = set (rev ?A)" using c by simp
  then show "set ?A = set chain" by simp
qed

lemma last_algo_or_genesis_none:
  "\<forall>b\<in>set (ancestors pb). \<not> mined_by C a b \<Longrightarrow> last_algo_or_genesis C a pb = last (ancestors pb)"
  by (simp add: last_algo_or_genesis_def find_None_iff [THEN iffD2])

text \<open>
  Claim C10. On an active chain with a non-null tip in which no block was mined by the
  algorithm, \<open>GetLastAlgoBlock\<close> returns the genesis entry (the entry at height 0, whose
  \<open>pprev\<close> is null) instead of null, and \<open>getmultialgoinfo\<close> reports for that algorithm
  \<open>last_block_index\<close> 0 and the difficulty of the genesis entry.
\<close>

theorem GetLastAlgoBlock_never_mined:
  assumes wf: "wf_chain chain" and nm: "\<forall>pb\<in>set chain. \<not> mined_by C a pb"
  shows "GetLastAlgoBlock C chain a = Inr (chain ! 0)
         \<and> CChain_at chain 0 = Some (chain ! 0)
         \<and> pprev (chain ! 0) = None \<and> nHeight (chain ! 0) = 0
         \<and> (\<exists>obj. multialgo_entry C X chain a = Inr obj \<and> last_block_index obj = 0
                \<and> difficulty obj = GetDifficulty X (chain ! 0))
         \<and> (\<exists>objs. getmultialgoinfo C X chain = Inr objs \<and> length objs = 6
                \<and> (\<forall>i<6. multialgo_algos C ! i = a \<longrightarrow>
                      last_block_index (objs ! i) = 0
                      \<and> difficulty (objs ! i) = GetDifficulty X (chain ! 0)))"
proof -
  have ne: "chain \<noteq> []" using wf by (simp add: wf_chain_def)
  have tip: "CChain_Tip chain = Some (last chain)" using wf by (rule wf_chain_Tip)
  have nm': "\<forall>b\<in>set (ancestors (last chain)). \<not> mined_by C a b"
    using nm wf_chain_genesis(2) [OF wf] by simp
  have g: "GetLastAlgoBlock C chain a = Inr (chain ! 0)"
    using last_algo_or_genesis_none [OF nm'] wf_chain_genesis(1) [OF wf]
    by (simp add: GetLastAlgoBlock_def tip GetLastAlgoBlock_loop_eq)
  have at: "CChain_at chain 0 = Some (chain ! 0)" using ne by (simp add: CChain_at_def)
  have pp: "pprev (chain ! 0) = None"
    using pprev_last_ancestors [of "last chain"] wf_chain_genesis(1) [OF wf] by simp
  have h0: "nHeight (chain ! 0) = 0" using wf_chain_nth(2) [OF wf, of 0] ne by simp
  have entry: "\<exists>obj. multialgo_entry C X chain b = Inr obj
                 \<and> (b = a \<longrightarrow> last_block_index obj = 0 \<and> difficulty obj = GetDifficulty X (chain ! 0))" for b
  proof -
    obtain r where r: "GetNetworkHashPS C (DifficultyAdjustmentInterval X) chain 120 (- 1) b = Inr r"
      using GetNetworkHashPS_wf_returns [OF wf, where lookup = 120 and C = C and a = b
          and interval = "DifficultyAdjustmentInterval X" and height = "- 1"] by auto
    show ?thesis
      using r g h0 by (auto simp add: multialgo_entry_def GetAlgoDifficulty_def GetLastAlgoBlock_def tip)
  qed
  have e1: "\<exists>obj. multialgo_entry C X chain a = Inr obj \<and> last_block_index obj = 0
                \<and> difficulty obj = GetDifficulty X (chain ! 0)"
    using entry [of a] by simp
  have "\<forall>x\<in>set (multialgo_algos C). \<exists>y. multialgo_entry C X chain x = Inr y"
    using entry by blast
  from collect_ok [OF this]
  obtain objs where o: "getmultialgoinfo C X chain = Inr objs" "length objs = length (multialgo_algos C)"
     "\<forall>i<length (multialgo_algos C). multialgo_entry C X chain (multialgo_algos C ! i) = Inr (objs ! i)"
    unfolding getmultialgoinfo_def by blast
  have l6: "length (multialgo_algos C) = 6" by (simp add: multialgo_algos_def)
  have "\<forall>i<6. multialgo_algos C ! i = a \<longrightarrow>
                      last_block_index (objs ! i) = 0
                      \<and> difficulty (objs ! i) = GetDifficulty X (chain ! 0)"
  proof (intro allI impI)
    fix i :: nat assume i: "i < 6" and ia: "multialgo_algos C ! i = a"
    have "multialgo_entry C X chain a = Inr (objs ! i)" using o(3) i ia l6 by auto
    with e1 show "last_block_index (objs ! i) = 0
                      \<and> difficulty (objs ! i) = GetDifficulty X (chain ! 0)" by auto
  qed
  with o l6 have e2: "\<exists>objs. getmultialgoinfo C X chain = Inr objs \<and> length objs = 6
                \<and> (\<forall>i<6. multialgo_algos C ! i = a \<longrightarrow>
                      last_block_index (objs ! i) = 0
                      \<and> difficulty (objs ! i) = GetDifficulty X (chain ! 0))" by auto
  show ?thesis using g at pp h0 e1 e2 by blast
qed

lemma walk_back_2: "walk_back 2 pb mn mx = walk_back (Suc (Suc 0)) pb mn mx"
  by (simp add: numeral_2_eq_2)

lemmas ex_defs = example_chain_def example_genesis_def example_block1_def example_block2_def
  example_consts_def

theorem GetLastAlgoBlock_never_mined_witness:
  "wf_chain example_chain
   \<and> \<not> mined_by example_consts (ALGO_LYRA2Z example_consts) example_genesis
   \<and> \<not> mined_by example_consts (ALGO_LYRA2Z example_consts) example_block1
   \<and> \<not> mined_by example_consts (ALGO_LYRA2Z example_consts) example_block2
   \<and> GetLastAlgoBlock example_consts example_chain (ALGO_LYRA2Z example_consts) = Inr example_genesis
   \<and> (\<exists>objs. getmultialgoinfo example_consts example_ext example_chain = Inr objs
         \<and> last_block_index (objs ! 2) = 0
         \<and> difficulty (objs ! 2) = GetDifficulty example_ext example_genesis)"
proof -
  have nm: "\<forall>pb\<in>set example_chain. \<not> mined_by example_consts (ALGO_LYRA2Z example_consts) pb"
    by (simp add: ex_defs mined_by_def)
  have i: "multialgo_algos example_consts ! 2 = ALGO_LYRA2Z example_consts"
    by (simp add: multialgo_algos_def)
  have z: "example_chain ! 0 = example_genesis" by (simp add: example_chain_def)
  show ?thesis
    using GetLastAlgoBlock_never_mined [OF example_chain_wf nm, where X = example_ext] nm i z example_chain_wf
    by (auto simp add: example_chain_def)
qed

theorem GetNetworkHashPS_zero_cases_witness:
  "resolve_start [] (- 1) = None
   \<and> GetNetworkHashPS example_consts 10 [] 120 (- 1) 0 = Inr HashPS_zero
   \<and> resolve_start example_chain 0 = Some example_genesis \<and> nHeight example_genesis = 0
   \<and> GetNetworkHashPS example_consts 10 example_chain 120 0 0 = Inr HashPS_zero
   \<and> resolve_start example_chain (- 1) = Some example_block2
   \<and> window_times example_block2 1 = [160, 160]
   \<and> GetNetworkHashPS example_consts 10 example_chain 1 (- 1) 0 = Inr HashPS_zero
   \<and> GetNetworkHashPS example_consts 10 example_chain 2 (- 1) 0 = Inr (HashPS_quot 100 60)
   \<and> (0::int) < 60"
proof -
  have r0: "resolve_start [] (- 1) = None"
    by (simp add: resolve_start_def CChain_Tip_def CChain_Height_def)
  have r1: "resolve_start example_chain 0 = Some example_genesis \<and> nHeight example_genesis = 0"
    by (simp add: resolve_start_def CChain_at_def CChain_Height_def ex_defs)
  have r2: "resolve_start example_chain (- 1) = Some example_block2"
    by (simp add: resolve_start_def CChain_Tip_def ex_defs)
  have e: "nat (effective_lookup 10 example_block2 1) = 1"
    by (simp add: effective_lookup_def ex_defs)
  have w: "window_times example_block2 1 = [160, 160]"
    by (simp add: window_times_def ex_defs GetBlockTime_def)
  have len: "(1::nat) < length (ancestors example_block2)"
    by (simp add: ex_defs)
  have q: "GetNetworkHashPS example_consts 10 example_chain 2 (- 1) 0 = Inr (HashPS_quot 100 60)"
    by (simp add: GetNetworkHashPS_def resolve_start_def CChain_Tip_def CChain_at_def
          CChain_Height_def ex_defs GetBlockTime_def Let_def walk_back_2)
  show ?thesis
    using GetNetworkHashPS_zero_cases [where chain = "[]" and height = "- 1" and C = example_consts
          and interval = 10 and lookup = 120 and a = 0]
      GetNetworkHashPS_zero_cases [where chain = example_chain and height = 0
          and C = example_consts and interval = 10 and lookup = 120 and a = 0]
      GetNetworkHashPS_zero_cases [where chain = example_chain and height = "- 1"
          and C = example_consts and interval = 10 and lookup = 1 and a = 0]
      GetNetworkHashPS_zero_cases [where chain = example_chain and height = "- 1"
          and C = example_consts and interval = 10 and lookup = 2 and a = 0]
      r0 r1 r2 e w len q
    by simp
qed

theorem GetNetworkHashPS_per_algo_work_witness:
  "wf_chain example_chain
   \<and> resolve_start example_chain (- 1) = Some example_block2
   \<and> 0 < nHeight example_block2
   \<and> nat (effective_lookup 10 example_block2 2) = 2
   \<and> window_times example_block2 2 = [160, 160, 100]
   \<and> last_algo_or_genesis example_consts (ALGO_SHA256D example_consts) example_block2 = example_block2
   \<and> last_algo_or_genesis example_consts (ALGO_SHA256D example_consts) example_genesis = example_genesis
   \<and> GetNetworkHashPS example_consts 10 example_chain 2 (- 1) (ALGO_SHA256D example_consts)
       = Inr (HashPS_quot 100 60)
   \<and> nChainWork example_block2 - nChainWork example_genesis = 2"
proof -
  have r2: "resolve_start example_chain (- 1) = Some example_block2"
    by (simp add: resolve_start_def CChain_Tip_def ex_defs)
  have h: "0 < nHeight example_block2" by (simp add: ex_defs)
  have e: "nat (effective_lookup 10 example_block2 2) = 2"
    by (simp add: effective_lookup_def ex_defs)
  have w: "window_times example_block2 2 = [160, 160, 100]"
    by (simp add: window_times_def ex_defs GetBlockTime_def)
  have mm: "Min (set (window_times example_block2 2)) \<noteq> Max (set (window_times example_block2 2))"
    by (simp add: w)
  have a2: "ancestors example_block2 ! 2 = example_genesis" by (simp add: ex_defs)
  have l1: "last_algo_or_genesis example_consts (ALGO_SHA256D example_consts) example_block2 = example_block2"
    by (simp add: last_algo_or_genesis_def mined_by_def ex_defs)
  have l2: "last_algo_or_genesis example_consts (ALGO_SHA256D example_consts) example_genesis = example_genesis"
    by (simp add: last_algo_or_genesis_def mined_by_def ex_defs)
  have wk: "nChainWorkAlgo example_block2 - nChainWorkAlgo example_genesis = 100"
       "nChainWork example_block2 - nChainWork example_genesis = 2"
    by (simp_all add: ex_defs)
  have "GetNetworkHashPS example_consts 10 example_chain 2 (- 1) (ALGO_SHA256D example_consts)
       = Inr (HashPS_quot 100 60)"
    using GetNetworkHashPS_per_algo_work [OF example_chain_wf r2 h _ e [symmetric] mm,
        where C = example_consts and a = "ALGO_SHA256D example_consts"]
    by (simp add: a2 l1 l2 wk w)
  then show ?thesis using example_chain_wf r2 h e w l1 l2 wk by simp
qed

text \<open>
  Claim C3 as stated fails for the window from the X11 block back to the genesis block:
  no ancestor of the genesis block was mined by X11, so the specification's difference has
  no value, while the code subtracts the genesis block's SHA256D work from the X11 work
  and wraps around.
\<close>

theorem GetNetworkHashPS_per_algo_work_counterexample:
  "resolve_start example_chain 1 = Some example_block1
   \<and> 0 < nHeight example_block1
   \<and> walk_back 1 example_block1 (GetBlockTime example_block1) (GetBlockTime example_block1)
       = Inr (example_genesis, 100, 160)
   \<and> find (mined_by example_consts (ALGO_X11 example_consts)) (ancestors example_genesis) = None
   \<and> work_delta_spec example_consts (ALGO_X11 example_consts) example_block1 example_genesis = None
   \<and> GetNetworkHashPS example_consts 10 example_chain 1 1 (ALGO_X11 example_consts)
       = Inr (HashPS_quot (5 - 100) 60)
   \<and> unat (5 - 100 :: uint256) = 2 ^ 256 - 95"
  by (simp add: GetNetworkHashPS_def resolve_start_def CChain_Tip_def CChain_at_def
        CChain_Height_def ex_defs GetBlockTime_def Let_def work_delta_spec_def mined_by_def)

section \<open>Properties of the template cache and of the submit paths\<close>

lemma update_block_called: "assembler_called (update_block s e a) \<longleftrightarrow> \<not> template_valid s e a"
  by (auto simp add: update_block_def template_valid_def Let_def split: option.splits)

lemma update_block_reuse_keeps: "\<not> assembler_called (update_block s e a) \<Longrightarrow> statics_after (update_block s e a) = s"
  by (auto simp add: update_block_def Let_def split: option.splits if_splits)

lemma update_block_coherent:
  assumes "cache_coherent prev_of s" and "assembler_on_tip prev_of e"
  shows "cache_coherent prev_of (statics_after (update_block s e a))"
  using assms
  by (auto simp add: update_block_def cache_coherent_def assembler_on_tip_def Let_def
        split: option.splits)

lemma update_block_outcome:
  assumes "cache_coherent prev_of s" and "assembler_on_tip prev_of e"
    and "outcome (update_block s e a) = Inr (t, p)"
  shows "Tip e = Some p \<and> prev_of t = p
         \<and> pindexPrev (statics_after (update_block s e a)) = Some p
         \<and> pblocktemplate (statics_after (update_block s e a)) = Some t"
  using assms
  by (auto simp add: update_block_def cache_coherent_def assembler_on_tip_def Let_def
        split: option.splits if_splits)

lemma gbt_calls_coherent:
  "cache_coherent prev_of s \<Longrightarrow> \<forall>c\<in>set calls. assembler_on_tip prev_of (fst c) \<Longrightarrow>
     cache_coherent prev_of (gbt_calls s calls)"
proof (induction calls arbitrary: s)
  case Nil
  then show ?case by simp
next
  case (Cons c calls)
  obtain e a where c: "c = (e, a)" by (cases c)
  show ?case using Cons c by (simp add: update_block_coherent)
qed

lemma gbt_initial_coherent: "cache_coherent prev_of gbt_initial"
  by (simp add: cache_coherent_def gbt_initial_def)

lemma update_block_rebuild_writes:
  "assembler_called (update_block s e a) \<Longrightarrow>
     nTransactionsUpdatedLast (statics_after (update_block s e a)) = GetTransactionsUpdated e
     \<and> nStart (statics_after (update_block s e a)) = GetTime e
     \<and> nTemplatePowAlgo (statics_after (update_block s e a)) = a
     \<and> pblocktemplate (statics_after (update_block s e a)) = CreateNewBlock e a
     \<and> pindexPrev (statics_after (update_block s e a))
         = (case CreateNewBlock e a of None \<Rightarrow> None | Some t \<Rightarrow> Tip e)"
  by (auto simp add: update_block_def Let_def split: option.splits if_splits)

lemma update_block_created:
  assumes "pindexPrev s \<noteq> None \<longrightarrow> (\<exists>c\<in>S. created_by s (fst c) (snd c))"
  shows "pindexPrev (statics_after (update_block s e a)) \<noteq> None \<longrightarrow>
           (\<exists>c\<in>insert (e, a) S.
              created_by (statics_after (update_block s e a)) (fst c) (snd c))"
proof (cases "assembler_called (update_block s e a)")
  case False
  then have "statics_after (update_block s e a) = s" by (rule update_block_reuse_keeps)
  with assms show ?thesis by auto
next
  case True
  note W = update_block_rebuild_writes [OF True]
  show ?thesis
  proof (cases "CreateNewBlock e a")
    case None
    with W show ?thesis by simp
  next
    case (Some t)
    with W have "created_by (statics_after (update_block s e a)) e a"
      by (simp add: created_by_def)
    then show ?thesis by auto
  qed
qed

lemma gbt_calls_created:
  "pindexPrev s \<noteq> None \<longrightarrow> (\<exists>c\<in>S. created_by s (fst c) (snd c)) \<Longrightarrow>
     pindexPrev (gbt_calls s calls) \<noteq> None \<longrightarrow>
       (\<exists>c\<in>S \<union> set calls. created_by (gbt_calls s calls) (fst c) (snd c))"
proof (induction calls arbitrary: s S)
  case Nil
  then show ?case by simp
next
  case (Cons c calls)
  obtain e a where c: "c = (e, a)" by (cases c)
  have "pindexPrev (gbt_calls (statics_after (update_block s e a)) calls) \<noteq> None \<longrightarrow>
       (\<exists>c\<in>insert (e, a) S \<union> set calls.
          created_by (gbt_calls (statics_after (update_block s e a)) calls) (fst c) (snd c))"
    by (rule Cons.IH [OF update_block_created [OF Cons.prems]])
  then show ?case using c by simp
qed

lemma gbt_initial_created:
  "pindexPrev (gbt_calls gbt_initial calls) \<noteq> None \<longrightarrow>
     (\<exists>c\<in>set calls. created_by (gbt_calls gbt_initial calls) (fst c) (snd c))"
  using gbt_calls_created [of gbt_initial "{}" calls] by (simp add: gbt_initial_def)

text \<open>
  Claim C1, as the code has it. In any state the statics can reach from their initial
  values, a call in template mode reuses the cached template, without calling the block
  assembler and without changing the statics, if and only if the tip equals \<open>pindexPrev\<close>,
  the requested algorithm equals the cached one, and either the mempool counter is
  unchanged or at most 5 seconds have elapsed since creation. Creation is the call that
  rebuilt: a call that runs the assembler stores its own mempool counter, time and
  algorithm together with the template it assembled, and a non-null \<open>pindexPrev\<close> always
  comes with the values stored by the call that created the cached template, before and
  after the step. Given an assembler that builds on the tip it sees, every template the
  step hands on builds on the current tip.
\<close>

theorem getblocktemplate_cache_reuse:
  assumes "\<forall>c\<in>set calls. assembler_on_tip prev_of (fst c)"
    and "assembler_on_tip prev_of e"
    and "s = gbt_calls gbt_initial calls"
  shows "(assembler_called (update_block s e a) \<longleftrightarrow> \<not> template_valid s e a)
         \<and> (\<not> assembler_called (update_block s e a) \<longrightarrow> statics_after (update_block s e a) = s)
         \<and> (\<forall>t p. outcome (update_block s e a) = Inr (t, p) \<longrightarrow>
               Tip e = Some p \<and> prev_of t = p
               \<and> pindexPrev (statics_after (update_block s e a)) = Some p
               \<and> pblocktemplate (statics_after (update_block s e a)) = Some t)
         \<and> (assembler_called (update_block s e a) \<longrightarrow>
               nTransactionsUpdatedLast (statics_after (update_block s e a)) = GetTransactionsUpdated e
               \<and> nStart (statics_after (update_block s e a)) = GetTime e
               \<and> nTemplatePowAlgo (statics_after (update_block s e a)) = a
               \<and> pblocktemplate (statics_after (update_block s e a)) = CreateNewBlock e a
               \<and> pindexPrev (statics_after (update_block s e a))
                   = (case CreateNewBlock e a of None \<Rightarrow> None | Some t \<Rightarrow> Tip e))
         \<and> (pindexPrev s \<noteq> None \<longrightarrow> (\<exists>c\<in>set calls. created_by s (fst c) (snd c)))
         \<and> (pindexPrev (statics_after (update_block s e a)) \<noteq> None \<longrightarrow>
               (\<exists>c\<in>set (calls @ [(e, a)]).
                  created_by (statics_after (update_block s e a)) (fst c) (snd c)))"
proof -
  have coh: "cache_coherent prev_of s"
    using gbt_calls_coherent [OF gbt_initial_coherent assms(1)] assms(3) by simp
  have cr: "pindexPrev s \<noteq> None \<longrightarrow> (\<exists>c\<in>set calls. created_by s (fst c) (snd c))"
    using gbt_initial_created [of calls] assms(3) by simp
  have cr': "pindexPrev (statics_after (update_block s e a)) \<noteq> None \<longrightarrow>
               (\<exists>c\<in>set (calls @ [(e, a)]).
                  created_by (statics_after (update_block s e a)) (fst c) (snd c))"
    using update_block_created [OF cr, of e a] by simp
  have old: "(assembler_called (update_block s e a) \<longleftrightarrow> \<not> template_valid s e a)
         \<and> (\<not> assembler_called (update_block s e a) \<longrightarrow> statics_after (update_block s e a) = s)
         \<and> (\<forall>t p. outcome (update_block s e a) = Inr (t, p) \<longrightarrow>
               Tip e = Some p \<and> prev_of t = p
               \<and> pindexPrev (statics_after (update_block s e a)) = Some p
               \<and> pblocktemplate (statics_after (update_block s e a)) = Some t)"
    using update_block_called [of s e a] update_block_reuse_keeps [of s e a]
      update_block_outcome [OF coh assms(2)]
    by blast
  show ?thesis
    using old update_block_rebuild_writes [of s e a] cr cr' by blast
qed

lemma example_env_on_tip: "assembler_on_tip id (example_env tip upd now)"
  by (simp add: assembler_on_tip_def example_env_def)

lemma example_statics_eq:
  "example_statics =
     \<lparr> nTransactionsUpdatedLast = 1, pindexPrev = Some 7, nStart = 1000,
       pblocktemplate = Some 7, nTemplatePowAlgo = 0x0500 \<rparr>"
  by (simp add: example_statics_def gbt_initial_def update_block_def example_env_def Let_def)

theorem getblocktemplate_cache_reuse_witness:
  "assembler_on_tip id (example_env 7 1 1000)
   \<and> assembler_on_tip id (example_env 7 2 1005)
   \<and> template_valid example_statics (example_env 7 2 1005) 0x0500
   \<and> \<not> assembler_called (update_block example_statics (example_env 7 2 1005) 0x0500)
   \<and> outcome (update_block example_statics (example_env 7 2 1005) 0x0500) = Inr (7, 7)
   \<and> Tip (example_env 7 2 1005) = Some 7
   \<and> created_by example_statics (example_env 7 1 1000) 0x0500
   \<and> assembler_called (update_block example_statics (example_env 7 2 1005) 0x0000)
   \<and> nTemplatePowAlgo (statics_after (update_block example_statics (example_env 7 2 1005) 0x0000))
       = 0x0000
   \<and> nStart (statics_after (update_block example_statics (example_env 7 2 1005) 0x0000)) = 1005
   \<and> nTransactionsUpdatedLast
        (statics_after (update_block example_statics (example_env 7 2 1005) 0x0000)) = 2"
proof -
  have c: "\<forall>c\<in>set [(example_env 7 1 1000, 0x0500 :: 32 word)]. assembler_on_tip id (fst c)"
    by (simp add: example_env_on_tip)
  have v: "template_valid example_statics (example_env 7 2 1005) 0x0500"
    by (simp add: example_statics_eq template_valid_def example_env_def)
  have nv: "\<not> template_valid example_statics (example_env 7 2 1005) 0x0000"
    by (simp add: example_statics_eq template_valid_def example_env_def)
  have o: "outcome (update_block example_statics (example_env 7 2 1005) 0x0500) = Inr (7, 7)"
    by (simp add: example_statics_eq update_block_def example_env_def)
  have t: "Tip (example_env 7 2 1005) = Some 7" "GetTime (example_env 7 2 1005) = 1005"
      "GetTransactionsUpdated (example_env 7 2 1005) = 2"
    by (simp_all add: example_env_def)
  have p: "pindexPrev example_statics \<noteq> None"
    by (simp add: example_statics_eq)
  have cb: "created_by example_statics (example_env 7 1 1000) 0x0500"
    by (simp add: example_statics_eq created_by_def example_env_def)
  show ?thesis
    using getblocktemplate_cache_reuse [OF c example_env_on_tip [of 7 2 1005] example_statics_def,
        of "0x0500"]
      getblocktemplate_cache_reuse [OF c example_env_on_tip [of 7 2 1005] example_statics_def,
        of "0x0000"]
      v nv o t p cb
    by (simp add: example_env_on_tip)
qed

text \<open>
  Claim C1 as stated fails exactly 5 seconds after creation with a changed mempool counter:
  the rule of the specification (fewer than 5 seconds) calls the template invalid, the code
  reuses it.
\<close>

theorem getblocktemplate_cache_reuse_counterexample:
  "pindexPrev example_statics = Tip (example_env 7 2 1005)
   \<and> nTemplatePowAlgo example_statics = 0x0500
   \<and> GetTransactionsUpdated (example_env 7 2 1005) \<noteq> nTransactionsUpdatedLast example_statics
   \<and> GetTime (example_env 7 2 1005) - nStart example_statics = 5
   \<and> \<not> template_valid_spec example_statics (example_env 7 2 1005) 0x0500
   \<and> \<not> assembler_called (update_block example_statics (example_env 7 2 1005) 0x0500)"
  by (simp add: example_statics_eq template_valid_spec_def update_block_def example_env_def)











section \<open>Properties of the epoch names\<close>

lemma length_epochs_loop: "length (epochs_loop es i nH nE) = length es"
  by (induction es arbitrary: i nH nE) (simp_all add: Let_def)

lemma halvings_so_far_prefix:
  "halvings_so_far (pre @ ep # rest) (length pre)
     = int (length (filter fIsSubsidyHalved pre)) + (if fIsSubsidyHalved ep then 1 else 0)"
  by (simp add: halvings_so_far_def)

lemma epochs_since_halving_prefix:
  "epochs_since_halving (pre @ ep # rest) (length pre)
     = (if length pre < 3 then 0
        else if fIsSubsidyHalved ep then 0
        else int (length (takeWhile (\<lambda>ep. \<not> fIsSubsidyHalved ep) (rev (drop 3 pre)))) + 1)"
  by (simp add: epochs_since_halving_def)

lemma epochs_loop_names:
  "j < length es \<Longrightarrow>
   epoch_name (epochs_loop es (length pre)
       (int (length (filter fIsSubsidyHalved pre)))
       (int (length (takeWhile (\<lambda>ep. \<not> fIsSubsidyHalved ep) (rev (drop 3 pre))))) ! j)
   = (if length pre + j < 3 then knownEpochs ! (length pre + j)
      else ''ALPHA_H'' @ to_string (halvings_so_far (pre @ es) (length pre + j))
           @ ''_E'' @ to_string (epochs_since_halving (pre @ es) (length pre + j)))"
proof (induction es arbitrary: pre j)
  case Nil
  then show ?case by simp
next
  case (Cons ep rest)
  show ?case
  proof (cases j)
    case 0
    then show ?thesis
      by (simp add: Let_def knownEpochs_def halvings_so_far_prefix epochs_since_halving_prefix)
  next
    case (Suc k)
    then have k: "k < length rest" using Cons.prems by simp
    have st1: "int (length (filter fIsSubsidyHalved (pre @ [ep])))
                = (if fIsSubsidyHalved ep then int (length (filter fIsSubsidyHalved pre)) + 1
                   else int (length (filter fIsSubsidyHalved pre)))"
      by simp
    have st2: "int (length (takeWhile (\<lambda>ep. \<not> fIsSubsidyHalved ep) (rev (drop 3 (pre @ [ep])))))
                = (if length pre < length knownEpochs then 0
                   else if fIsSubsidyHalved ep then 0
                   else int (length (takeWhile (\<lambda>ep. \<not> fIsSubsidyHalved ep) (rev (drop 3 pre)))) + 1)"
      by (simp add: knownEpochs_def)
    have "epoch_name (epochs_loop (ep # rest) (length pre)
       (int (length (filter fIsSubsidyHalved pre)))
       (int (length (takeWhile (\<lambda>ep. \<not> fIsSubsidyHalved ep) (rev (drop 3 pre))))) ! j)
      = epoch_name (epochs_loop rest (length (pre @ [ep]))
       (int (length (filter fIsSubsidyHalved (pre @ [ep]))))
       (int (length (takeWhile (\<lambda>ep. \<not> fIsSubsidyHalved ep) (rev (drop 3 (pre @ [ep])))))) ! k)"
      unfolding st1 st2 using Suc by (simp add: Let_def)
    also have "\<dots> = (if length (pre @ [ep]) + k < 3 then knownEpochs ! (length (pre @ [ep]) + k)
      else ''ALPHA_H'' @ to_string (halvings_so_far ((pre @ [ep]) @ rest) (length (pre @ [ep]) + k))
           @ ''_E'' @ to_string (epochs_since_halving ((pre @ [ep]) @ rest) (length (pre @ [ep]) + k)))"
      by (rule Cons.IH [OF k])
    finally show ?thesis using Suc by simp
  qed
qed

text \<open>
  Claim C7. The enumeration reports one entry per epoch. The first three are named
  COINSWAP, BOOTSTRAP and ALPHA; every later epoch \<open>i\<close> is named \<open>ALPHA_H{H}_E{E}\<close>, where
  \<open>H\<close> is the number of epochs started by a halving among the epochs up to and including
  \<open>i\<close>, and \<open>E\<close> is the number of epochs since the last halving, which is zero at a
  halving and counts from the end of the three named epochs.
\<close>

theorem gethalvinginfo_epoch_names:
  "length (gethalvinginfo_epochs epochs) = length epochs
   \<and> (\<forall>i<length epochs.
        epoch_name (gethalvinginfo_epochs epochs ! i) =
          (if i < 3 then [''COINSWAP'', ''BOOTSTRAP'', ''ALPHA''] ! i
           else ''ALPHA_H'' @ to_string (halvings_so_far epochs i)
                @ ''_E'' @ to_string (epochs_since_halving epochs i)))"
  using epochs_loop_names [of _ epochs "[]"]
  by (simp add: gethalvinginfo_epochs_def length_epochs_loop knownEpochs_def)

lemma digits10_small: "n < 10 \<Longrightarrow> digits10 n = [''0123456789'' ! n]"
  by (simp add: digits10.simps)

theorem gethalvinginfo_epoch_names_witness:
  "length example_epochs = 7
   \<and> map epoch_name (gethalvinginfo_epochs example_epochs) =
       [''COINSWAP'', ''BOOTSTRAP'', ''ALPHA'', ''ALPHA_H0_E1'', ''ALPHA_H1_E0'',
        ''ALPHA_H1_E1'', ''ALPHA_H1_E2'']
   \<and> halvings_so_far example_epochs 6 = 1
   \<and> epochs_since_halving example_epochs 6 = 2
   \<and> epoch_name (gethalvinginfo_epochs example_epochs ! 6) = ''ALPHA_H1_E2''"
proof -
  have l: "length example_epochs = 7" by (simp add: example_epochs_def)
  have n: "map epoch_name (gethalvinginfo_epochs example_epochs) =
       [''COINSWAP'', ''BOOTSTRAP'', ''ALPHA'', ''ALPHA_H0_E1'', ''ALPHA_H1_E0'',
        ''ALPHA_H1_E1'', ''ALPHA_H1_E2'']"
    by (simp add: gethalvinginfo_epochs_def example_epochs_def Let_def knownEpochs_def
          to_string_def digits10_small)
  have h: "halvings_so_far example_epochs 6 = 1"
    by (simp add: halvings_so_far_def example_epochs_def)
  have e: "epochs_since_halving example_epochs 6 = 2"
    by (simp add: epochs_since_halving_def example_epochs_def)
  have t: "to_string 1 = ''1''" "to_string 2 = ''2''"
    by (simp_all add: to_string_def digits10_small)
  show ?thesis
    using gethalvinginfo_epoch_names [of example_epochs] l n h e t by simp
qed

section \<open>Properties of the block generator\<close>

lemma unat_nInnerLoopCount: "unat nInnerLoopCount = 65536"
  by (simp add: nInnerLoopCount_def)

lemma nonce_succ:
  assumes "n < nInnerLoopCount"
  shows "unat (n + 1) = Suc (unat n)"
proof -
  have "unat n < 65536" using assms by (simp add: word_less_nat_alt unat_nInnerLoopCount)
  then show ?thesis by (simp add: unat_word_ariths)
qed

lemma with_nonce_succ: "with_nonce (pb\<lparr> nNonce := m \<rparr>) n = with_nonce pb n"
  by (simp add: with_nonce_def)

lemma with_nonce_self: "with_nonce pb (nNonce pb) = pb"
  by (simp add: with_nonce_def)

lemma scan_nonces_spec:
  "scan_nonces C H chk pb0 T = (pb, T') \<Longrightarrow> nNonce pb0 \<le> nInnerLoopCount \<Longrightarrow>
     pb = with_nonce pb0 (nNonce pb)
     \<and> unat (nNonce pb0) \<le> unat (nNonce pb) \<and> unat (nNonce pb) \<le> 65536
     \<and> T = T' + (unat (nNonce pb) - unat (nNonce pb0))
     \<and> (\<forall>k. unat (nNonce pb0) \<le> k \<and> k < unat (nNonce pb) \<longrightarrow> \<not> pow_ok C H chk pb0 (of_nat k))
     \<and> (T' = 0 \<or> nNonce pb = nInnerLoopCount \<or> pow_ok C H chk pb0 (nNonce pb))"
proof (induction C H chk pb0 T arbitrary: pb T' rule: scan_nonces.induct)
  case (1 C H chk pblock nMaxTries)
  show ?case
  proof (cases "nMaxTries > 0 \<and> nNonce pblock < nInnerLoopCount
         \<and> \<not> chk (GetPoWHash C H pblock) (nBits pblock)")
    case False
    have "scan_nonces C H chk pblock nMaxTries = (pblock, nMaxTries)"
      by (subst scan_nonces.simps) (simp only: False if_False)
    then have r: "pb = pblock" "T' = nMaxTries"
      using "1.prems"(1) by simp_all
    have le: "unat (nNonce pblock) \<le> 65536"
      using "1.prems"(2) by (simp add: word_le_nat_alt unat_nInnerLoopCount)
    have stop: "nMaxTries = 0 \<or> nNonce pblock = nInnerLoopCount
                  \<or> pow_ok C H chk pblock (nNonce pblock)"
      using False "1.prems"(2) by (auto simp add: pow_ok_def with_nonce_self)
    show ?thesis using r le stop by (auto simp add: with_nonce_self)
  next
    case True
    let ?next = "pblock\<lparr> nNonce := nNonce pblock + 1 \<rparr>"
    have lt: "nNonce pblock < nInnerLoopCount" using True by simp
    have su: "unat (nNonce pblock + 1) = Suc (unat (nNonce pblock))" using lt by (rule nonce_succ)
    have "scan_nonces C H chk pblock nMaxTries = scan_nonces C H chk ?next (nMaxTries - 1)"
      by (subst scan_nonces.simps) (use True in simp)
    then have rec: "scan_nonces C H chk ?next (nMaxTries - 1) = (pb, T')"
      using "1.prems"(1) by simp
    have le': "nNonce ?next \<le> nInnerLoopCount"
      using lt by (simp add: word_le_nat_alt word_less_nat_alt su)
    note IH = "1.IH" [OF True rec le']
    have bits: "nBits ?next = nBits pblock" by simp
    have fail0: "\<not> pow_ok C H chk pblock (of_nat (unat (nNonce pblock)))"
      using True by (simp add: pow_ok_def with_nonce_self)
    have pw: "pow_ok C H chk ?next n = pow_ok C H chk pblock n" for n
      by (simp add: pow_ok_def with_nonce_def)
    have a: "pb = with_nonce pblock (nNonce pb)" using IH by (simp add: with_nonce_def)
    have b: "unat (nNonce pblock) \<le> unat (nNonce pb)" "unat (nNonce pb) \<le> 65536"
      using IH su by simp_all
    have i1: "Suc (unat (nNonce pblock)) \<le> unat (nNonce pb)"
      and i2: "nMaxTries - 1 = T' + (unat (nNonce pb) - Suc (unat (nNonce pblock)))"
      using IH su by simp_all
    have pos: "0 < nMaxTries" using True by simp
    have c: "nMaxTries = T' + (unat (nNonce pb) - unat (nNonce pblock))"
      using i1 i2 pos by arith
    have d: "\<forall>k. unat (nNonce pblock) \<le> k \<and> k < unat (nNonce pb) \<longrightarrow> \<not> pow_ok C H chk pblock (of_nat k)"
    proof (intro allI impI)
      fix k assume k: "unat (nNonce pblock) \<le> k \<and> k < unat (nNonce pb)"
      show "\<not> pow_ok C H chk pblock (of_nat k)"
      proof (cases "k = unat (nNonce pblock)")
        case True
        then show ?thesis using fail0 by simp
      next
        case False
        then have "unat (nNonce ?next) \<le> k \<and> k < unat (nNonce pb)" using k su by simp
        then show ?thesis using IH pw by blast
      qed
    qed
    have e: "T' = 0 \<or> nNonce pb = nInnerLoopCount \<or> pow_ok C H chk pblock (nNonce pb)"
      using IH pw by blast
    show ?thesis using a b c d e by blast
  qed
qed


lemma generate_loop_pass:
  assumes "nHeight' < nHeightEnd" and "\<not> ShutdownRequested x" and "NewBlock x = Some pblock0"
    and "scan_nonces C H chk pblock0 T = (pblock, T')"
  shows "generate_loop C H chk (x # rest) nHeight' nHeightEnd T blockHashes =
     (if T' = 0 then Some (Inr blockHashes)
      else if nNonce pblock = nInnerLoopCount
      then generate_loop C H chk rest nHeight' nHeightEnd T' blockHashes
      else if \<not> ProcessNewBlock_ok x pblock
      then Some (Inl (JSONRPCError RPC_INTERNAL_ERROR ''ProcessNewBlock, block not accepted''))
      else generate_loop C H chk rest (nHeight' + 1) nHeightEnd T'
             (blockHashes @ [GetHash H pblock]))"
  using assms by (subst generate_loop.simps) simp

text \<open>
  Claim C8, as the code has it. In a pass of the generator whose template starts at nonce
  0, the scan visits the nonces from 0 upwards and stops at the first nonce whose PoW hash
  meets the target, or at \<open>0x10000\<close>, or when \<open>T\<close> reaches 0. \<open>T\<close> is decremented once for
  each nonce that failed the check; the nonce that meets the target costs nothing. If \<open>T\<close>
  is 0 after the scan, the generator stops and returns the hashes found so far; otherwise
  an exhausted range makes the loop continue with a fresh template, the height and the
  hashes unchanged; otherwise the block at the found nonce is submitted and, once
  accepted, its hash is appended and the height advances.
\<close>

theorem generateBlocks_nonce_scan:
  assumes "nHeight' < nHeightEnd" and "\<not> ShutdownRequested x" and "NewBlock x = Some pblock0"
    and "nNonce pblock0 = 0"
    and "scan_nonces C H chk pblock0 T = (pblock, T')"
  shows "pblock = with_nonce pblock0 (nNonce pblock)
     \<and> unat (nNonce pblock) \<le> 65536
     \<and> T = T' + unat (nNonce pblock)
     \<and> (\<forall>k<unat (nNonce pblock). \<not> pow_ok C H chk pblock0 (of_nat k))
     \<and> (T' = 0 \<or> nNonce pblock = nInnerLoopCount \<or> pow_ok C H chk pblock0 (nNonce pblock))
     \<and> (T' = 0 \<longrightarrow>
          generate_loop C H chk (x # rest) nHeight' nHeightEnd T blockHashes = Some (Inr blockHashes))
     \<and> (T' \<noteq> 0 \<and> nNonce pblock = nInnerLoopCount \<longrightarrow>
          generate_loop C H chk (x # rest) nHeight' nHeightEnd T blockHashes
            = generate_loop C H chk rest nHeight' nHeightEnd T' blockHashes)
     \<and> (T' \<noteq> 0 \<and> nNonce pblock \<noteq> nInnerLoopCount \<and> ProcessNewBlock_ok x pblock \<longrightarrow>
          pow_ok C H chk pblock0 (nNonce pblock)
          \<and> generate_loop C H chk (x # rest) nHeight' nHeightEnd T blockHashes
              = generate_loop C H chk rest (nHeight' + 1) nHeightEnd T'
                  (blockHashes @ [GetHash H pblock]))"
proof -
  have le: "nNonce pblock0 \<le> nInnerLoopCount" using assms(4) by simp
  note S = scan_nonces_spec [OF assms(5) le]
  note P = generate_loop_pass [OF assms(1,2,3,5), of rest blockHashes]
  have a: "pblock = with_nonce pblock0 (nNonce pblock)" using S by blast
  have b: "unat (nNonce pblock) \<le> 65536" using S by blast
  have c: "T = T' + unat (nNonce pblock)" using S assms(4) by simp
  have d: "\<forall>k<unat (nNonce pblock). \<not> pow_ok C H chk pblock0 (of_nat k)"
    using S assms(4) by simp
  have e: "T' = 0 \<or> nNonce pblock = nInnerLoopCount \<or> pow_ok C H chk pblock0 (nNonce pblock)"
    using S by blast
  show ?thesis using a b c d e P by auto
qed

lemmas gen_ex_defs = example_pass_def example_consts_def example_hashers_def header_of_version_def

lemma example_scan:
  "scan_nonces example_consts example_hashers (\<lambda>h b. True) (header_of_version 0x20000000) 1
     = (header_of_version 0x20000000, 1)"
  by (subst scan_nonces.simps) simp

theorem generateBlocks_nonce_scan_witness:
  "NewBlock example_pass = Some (header_of_version 0x20000000)
   \<and> nNonce (header_of_version 0x20000000) = 0
   \<and> scan_nonces example_consts example_hashers (\<lambda>h b. True) (header_of_version 0x20000000) 1
       = (header_of_version 0x20000000, 1)
   \<and> pow_ok example_consts example_hashers (\<lambda>h b. True) (header_of_version 0x20000000) 0
   \<and> generate_loop example_consts example_hashers (\<lambda>h b. True) [example_pass] 0 1 1 []
       = Some (Inr [1])"
proof -
  have n: "NewBlock example_pass = Some (header_of_version 0x20000000)"
      "\<not> ShutdownRequested example_pass" "ProcessNewBlock_ok example_pass (header_of_version 0x20000000)"
    by (simp_all add: example_pass_def)
  have z: "nNonce (header_of_version 0x20000000) = 0" "nNonce (header_of_version 0x20000000) \<noteq> nInnerLoopCount"
    by (simp_all add: header_of_version_def nInnerLoopCount_def)
  have h: "GetHash example_hashers (header_of_version 0x20000000) = 1"
    by (simp add: GetHash_def example_hashers_def)
  have f: "generate_loop example_consts example_hashers (\<lambda>h b. True) [] 1 1 1 [1] = Some (Inr [1])"
    by (subst generate_loop.simps) simp
  show ?thesis
    using generateBlocks_nonce_scan [OF _ n(2) n(1) z(1) example_scan, of 0 1 "[]" "[]"]
      n z h f example_scan
    by simp
qed

text \<open>
  Claim C8 as stated fails when the first nonce meets the target: one nonce is attempted
  and \<open>T\<close> is not decremented, so a budget of 1 yields two blocks in two passes.
\<close>

theorem generateBlocks_nonce_scan_counterexample:
  "nonces_attempted example_consts example_hashers (\<lambda>h b. True) (header_of_version 0x20000000) 1 = 1
   \<and> snd (scan_nonces example_consts example_hashers (\<lambda>h b. True) (header_of_version 0x20000000) 1) = 1
   \<and> snd (scan_nonces example_consts example_hashers (\<lambda>h b. True) (header_of_version 0x20000000) 1)
       \<noteq> 1 - nonces_attempted example_consts example_hashers (\<lambda>h b. True)
               (header_of_version 0x20000000) 1
   \<and> generateBlocks example_consts example_hashers (\<lambda>h b. True) [example_pass, example_pass] 0 2 1
       = Some (Inr [1, 1])"
proof -
  have a: "nonces_attempted example_consts example_hashers (\<lambda>h b. True) (header_of_version 0x20000000) 1 = 1"
    by (subst nonces_attempted.simps) (simp add: header_of_version_def nInnerLoopCount_def)
  have n: "NewBlock example_pass = Some (header_of_version 0x20000000)"
      "\<not> ShutdownRequested example_pass" "ProcessNewBlock_ok example_pass (header_of_version 0x20000000)"
    by (simp_all add: example_pass_def)
  have z: "nNonce (header_of_version 0x20000000) \<noteq> nInnerLoopCount"
    by (simp add: header_of_version_def nInnerLoopCount_def)
  have h: "GetHash example_hashers (header_of_version 0x20000000) = 1"
    by (simp add: GetHash_def example_hashers_def)
  have f: "generate_loop example_consts example_hashers (\<lambda>h b. True) [] 2 2 1 [1, 1] = Some (Inr [1, 1])"
    by (subst generate_loop.simps) simp
  have s1: "generate_loop example_consts example_hashers (\<lambda>h b. True) [example_pass, example_pass] 0 2 1 []
       = generate_loop example_consts example_hashers (\<lambda>h b. True) [example_pass] 1 2 1 [1]"
    using generate_loop_pass [OF _ n(2) n(1) example_scan, of 0 2 "[example_pass]" "[]"] n z h
    by simp
  have s2: "generate_loop example_consts example_hashers (\<lambda>h b. True) [example_pass] 1 2 1 [1]
       = generate_loop example_consts example_hashers (\<lambda>h b. True) [] 2 2 1 [1, 1]"
    using generate_loop_pass [OF _ n(2) n(1) example_scan, of 1 2 "[]" "[1]"] n z h
    by simp
  have g: "generateBlocks example_consts example_hashers (\<lambda>h b. True) [example_pass, example_pass] 0 2 1
       = Some (Inr [1, 1])"
    unfolding generateBlocks_def using s1 s2 f by simp
  have sc: "snd (scan_nonces example_consts example_hashers (\<lambda>h b. True)
                  (header_of_version 0x20000000) 1) = 1"
    by (simp only: example_scan snd_conv)
  show ?thesis unfolding a sc g by simp
qed

end
